theory Spec2Isabelle
  imports Complex_Main "HOL-Library.Log_Nat"
begin

section \<open>The aggregator: \<^verbatim>\<open>github_api\<close> and \<^verbatim>\<open>fetch_user_data\<close>\<close>

text \<open>
  The script \<^verbatim>\<open>scripts/generate_widgets.py\<close> queries four endpoints and folds the
  answers into one statistics dictionary. The embedding keeps the order of the
  queries and every way a query can end:
  \<^item> \<^verbatim>\<open>requests.get\<close> raises (connection error, the 30 second timeout): \<open>Raises\<close>;
  \<^item> it returns a response with a status code and a JSON body: \<open>Response code body\<close>.
  The body is taken as already decoded and of the shape the code reads (a list of
  repository objects, an object from language to byte count, a list of events).
  An exception is a value \<open>Inl e\<close> of the result; nothing in
  \<^verbatim>\<open>github_api\<close> or \<^verbatim>\<open>fetch_user_data\<close> catches the exceptions of \<^verbatim>\<open>requests.get\<close>.
\<close>

datatype error = RequestException | ZeroDivisionError | OverflowError

datatype 'a http_result = Raises | Response nat 'a

text \<open>
  \<^verbatim>\<open>resp = requests.get(url, ..., timeout=30)\<close>;
  \<^verbatim>\<open>if resp.status_code == 200: return resp.json() else: ... return None\<close>.
\<close>

definition github_api :: "'a http_result \<Rightarrow> error + 'a option" where
  "github_api r =
     (case r of
        Raises \<Rightarrow> Inl RequestException
      | Response status_code body \<Rightarrow>
          if status_code = 200 then Inr (Some body) else Inr None)"

text \<open>\<^verbatim>\<open>x or []\<close> and \<^verbatim>\<open>x or {}\<close>: \<^verbatim>\<open>None\<close> (and the empty collection) become the
  empty collection. A Python \<^verbatim>\<open>dict\<close> is an association list in insertion order.\<close>

definition or_empty :: "'a list option \<Rightarrow> 'a list" where
  "or_empty x = (case x of None \<Rightarrow> [] | Some v \<Rightarrow> v)"

type_synonym 'k counter = "('k \<times> int) list"

text \<open>\<^verbatim>\<open>d[k] += v\<close> on a \<^verbatim>\<open>defaultdict(int)\<close>: an existing key keeps its place, a new
  key is appended with \<open>0 + v\<close>.\<close>

fun dict_add :: "'k counter \<Rightarrow> 'k \<Rightarrow> int \<Rightarrow> 'k counter" where
  "dict_add [] k v = [(k, 0 + v)]"
| "dict_add ((k', c) # d) k v =
     (if k' = k then (k', c + v) # d else (k', c) # dict_add d k v)"

text \<open>\<^verbatim>\<open>sum(d.values())\<close>.\<close>

definition sum_values :: "'k counter \<Rightarrow> int" where
  "sum_values d = sum_list (map snd d)"

text \<open>The fields of a repository object that \<^verbatim>\<open>fetch_user_data\<close> reads
  (\<^verbatim>\<open>description\<close>, \<^verbatim>\<open>updated_at\<close> and \<^verbatim>\<open>created_at\<close> are copied through and read by
  no renderer; they are left out).\<close>

record repo =
  fork :: bool
  name :: string
  language :: "string option"
  stargazers_count :: int
  size_units :: int

text \<open>One entry of \<^verbatim>\<open>repo_data\<close>.\<close>

record repo_summary =
  rs_name :: string
  rs_language :: string
  rs_stars :: int
  rs_size :: int
  rs_languages :: "string counter"

text \<open>An event: \<^verbatim>\<open>created_at\<close> (absent or null: \<open>None\<close>) and \<^verbatim>\<open>type\<close>
  (absent: \<open>None\<close>).\<close>

record event =
  created_at :: "string option"
  event_type :: "string option"

text \<open>What \<^verbatim>\<open>datetime.fromisoformat\<close> returns, as far as the loop reads it:
  the date fields for \<^verbatim>\<open>strftime("%Y-%m-%d")\<close> and \<^verbatim>\<open>dt.hour\<close>.\<close>

record datetime =
  year :: nat
  month :: nat
  day :: nat
  hour :: nat

text \<open>The four queries. The language query is one endpoint per repository name.\<close>

record 'u github =
  user_query :: "'u list http_result"
  repos_query :: "repo list http_result"
  languages_query :: "string \<Rightarrow> string counter http_result"
  events_query :: "event list http_result"

text \<open>The dictionary \<^verbatim>\<open>fetch_user_data\<close> returns.\<close>

record 'u profile_stats =
  user :: "'u list"
  repos :: "repo_summary list"
  languages :: "string counter"
  daily_activity :: "string counter"
  hourly_activity :: "nat counter"
  event_types :: "string counter"
  total_repos :: nat
  total_stars :: int

subsection \<open>The repository loop\<close>

text \<open>\<^verbatim>\<open>for l, bytes_count in langs.items(): lang_totals[l] += bytes_count\<close>.\<close>

fun merge_langs :: "string counter \<Rightarrow> string counter \<Rightarrow> string counter" where
  "merge_langs lang_totals [] = lang_totals"
| "merge_langs lang_totals ((l, bytes_count) # langs) =
     merge_langs (dict_add lang_totals l bytes_count) langs"

text \<open>\<^verbatim>\<open>repo.get("language") or "Other"\<close>.\<close>

definition language_or_other :: "repo \<Rightarrow> string" where
  "language_or_other r =
     (case language r of None \<Rightarrow> ''Other'' | Some l \<Rightarrow> if l = [] then ''Other'' else l)"

text \<open>The loop \<^verbatim>\<open>for repo in repos\<close>: a fork is skipped before anything is read or
  queried; for every other repository the language query is made, and an exception
  of it ends the loop.\<close>

fun repo_loop ::
  "(string \<Rightarrow> string counter http_result) \<Rightarrow> repo list \<Rightarrow>
   string counter \<times> repo_summary list \<Rightarrow> error + (string counter \<times> repo_summary list)" where
  "repo_loop q [] st = Inr st"
| "repo_loop q (r # rs) (lang_totals, repo_data) =
     (if fork r then repo_loop q rs (lang_totals, repo_data)
      else
        (case github_api (q (name r)) of
           Inl e \<Rightarrow> Inl e
         | Inr resp \<Rightarrow>
             (let langs = or_empty resp
              in repo_loop q rs
                   (merge_langs lang_totals langs,
                    repo_data @
                      [\<lparr>rs_name = name r, rs_language = language_or_other r,
                        rs_stars = stargazers_count r, rs_size = size_units r,
                        rs_languages = langs\<rparr>]))))"

subsection \<open>The event loop\<close>

text \<open>\<^verbatim>\<open>created.replace("Z", "+00:00")\<close>.\<close>

fun replace_Z :: "string \<Rightarrow> string" where
  "replace_Z [] = []"
| "replace_Z (c # cs) = (if c = CHR ''Z'' then ''+00:00'' @ replace_Z cs else c # replace_Z cs)"

text \<open>\<^verbatim>\<open>dt.strftime("%Y-%m-%d")\<close>: the year on four digits, month and day on two.\<close>

definition digit :: "nat \<Rightarrow> char" where
  "digit n = char_of (48 + n mod 10)"

definition strftime_ymd :: "datetime \<Rightarrow> string" where
  "strftime_ymd dt =
     [digit (year dt div 1000), digit (year dt div 100), digit (year dt div 10), digit (year dt),
      CHR ''-'', digit (month dt div 10), digit (month dt),
      CHR ''-'', digit (day dt div 10), digit (day dt)]"

text \<open>
  One pass of the loop body. \<open>fromisoformat\<close> stands for the library's parser:
  \<open>None\<close> when it raises. The bare \<^verbatim>\<open>except: pass\<close> swallows that exception, and
  the type counter is bumped after the \<^verbatim>\<open>if\<close>, for every event.
\<close>

type_synonym activity = "string counter \<times> nat counter \<times> string counter"

definition count_event :: "(string \<Rightarrow> datetime option) \<Rightarrow> activity \<Rightarrow> event \<Rightarrow> activity" where
  "count_event fromisoformat st ev =
     (case st of (daily, hourly, types) \<Rightarrow>
        (let created = (case created_at ev of None \<Rightarrow> '''' | Some s \<Rightarrow> s);
             (daily', hourly') =
               (if created \<noteq> [] then
                  (case fromisoformat (replace_Z created) of
                     Some dt \<Rightarrow> (dict_add daily (strftime_ymd dt) 1, dict_add hourly (hour dt) 1)
                   | None \<Rightarrow> (daily, hourly))
                else (daily, hourly))
         in (daily', hourly',
             dict_add types (case event_type ev of None \<Rightarrow> ''Unknown'' | Some t \<Rightarrow> t) 1)))"

definition event_loop :: "(string \<Rightarrow> datetime option) \<Rightarrow> event list \<Rightarrow> activity" where
  "event_loop fromisoformat events = foldl (count_event fromisoformat) ([], [], []) events"

subsection \<open>\<^verbatim>\<open>fetch_user_data\<close>\<close>

definition fetch_user_data ::
  "(string \<Rightarrow> datetime option) \<Rightarrow> 'u github \<Rightarrow> error + 'u profile_stats" where
  "fetch_user_data fromisoformat api =
     (case github_api (user_query api) of
        Inl e \<Rightarrow> Inl e
      | Inr user_resp \<Rightarrow>
     (case github_api (repos_query api) of
        Inl e \<Rightarrow> Inl e
      | Inr repos_resp \<Rightarrow>
     (case repo_loop (languages_query api) (or_empty repos_resp) ([], []) of
        Inl e \<Rightarrow> Inl e
      | Inr (lang_totals, repo_data) \<Rightarrow>
     (case github_api (events_query api) of
        Inl e \<Rightarrow> Inl e
      | Inr events_resp \<Rightarrow>
     (case event_loop fromisoformat (or_empty events_resp) of
        (daily, hourly, types) \<Rightarrow>
          Inr \<lparr>user = or_empty user_resp, repos = repo_data, languages = lang_totals,
               daily_activity = daily, hourly_activity = hourly, event_types = types,
               total_repos = length repo_data,
               total_stars = sum_list (map rs_stars repo_data)\<rparr>)))))"

subsection \<open>Notions the statements about the aggregator use\<close>

text \<open>\<^verbatim>\<open>d.get(k, 0)\<close> and \<^verbatim>\<open>d.keys()\<close>.\<close>

definition lookup :: "'k counter \<Rightarrow> 'k \<Rightarrow> int" where
  "lookup d k = (case map_of d k of None \<Rightarrow> 0 | Some c \<Rightarrow> c)"

definition keys :: "'k counter \<Rightarrow> 'k set" where
  "keys d = fst ` set d"

text \<open>The bytes one repository's language map gives to language \<open>l\<close>
  (its entry for \<open>l\<close>, or \<open>0\<close> when it has none).\<close>

definition bytes_of :: "string \<Rightarrow> string counter \<Rightarrow> int" where
  "bytes_of l langs = sum_list (map snd (filter (\<lambda>p. fst p = l) langs))"

text \<open>The repositories that are not forks, in the order received.\<close>

definition included :: "repo list \<Rightarrow> repo list" where
  "included rs = filter (\<lambda>r. \<not> fork r) rs"

text \<open>What \<^verbatim>\<open>github_api(...) or []\<close> leaves of a query that did not raise.\<close>

definition response_body :: "'a list http_result \<Rightarrow> 'a list" where
  "response_body r = (case r of Raises \<Rightarrow> [] | Response c body \<Rightarrow> if c = 200 then body else [])"

definition summarise :: "(string \<Rightarrow> string counter http_result) \<Rightarrow> repo \<Rightarrow> repo_summary" where
  "summarise q r =
     \<lparr>rs_name = name r, rs_language = language_or_other r, rs_stars = stargazers_count r,
      rs_size = size_units r, rs_languages = response_body (q (name r))\<rparr>"

definition loop_result ::
  "(string \<Rightarrow> string counter http_result) \<Rightarrow> repo list \<Rightarrow>
   string counter \<times> repo_summary list \<Rightarrow> error + (string counter \<times> repo_summary list)" where
  "loop_result q rs st =
     (if \<exists>r\<in>set rs. q (name r) = Raises then Inl RequestException
      else Inr (foldl merge_langs (fst st) (map (\<lambda>r. response_body (q (name r))) rs),
                snd st @ map (summarise q) rs))"

definition included_repos :: "'u github \<Rightarrow> repo list" where
  "included_repos api = included (response_body (repos_query api))"

definition repo_languages :: "'u github \<Rightarrow> repo \<Rightarrow> string counter" where
  "repo_languages api r = response_body (languages_query api (name r))"

text \<open>Some query that \<^verbatim>\<open>fetch_user_data\<close> makes raises.\<close>

definition transport_error :: "'u github \<Rightarrow> bool" where
  "transport_error api =
     (user_query api = Raises \<or> repos_query api = Raises \<or>
      (\<exists>r\<in>set (included_repos api). languages_query api (name r) = Raises) \<or>
      events_query api = Raises)"

text \<open>The same answers with the forks taken out of the repository list.\<close>

definition without_forks :: "'u github \<Rightarrow> 'u github" where
  "without_forks api =
     api\<lparr>repos_query :=
           (case repos_query api of Raises \<Rightarrow> Raises | Response c rs \<Rightarrow> Response c (included rs))\<rparr>"

text \<open>The same answers with every non-success response replaced by a success
  response that carries the empty collection.\<close>

definition degrade :: "'a list http_result \<Rightarrow> 'a list http_result" where
  "degrade r =
     (case r of Raises \<Rightarrow> Raises | Response c body \<Rightarrow> Response 200 (if c = 200 then body else []))"

definition degraded :: "'u github \<Rightarrow> 'u github" where
  "degraded api =
     \<lparr>user_query = degrade (user_query api), repos_query = degrade (repos_query api),
      languages_query = (\<lambda>n. degrade (languages_query api n)),
      events_query = degrade (events_query api)\<rparr>"

text \<open>The timestamp of an event as the loop gets it: \<open>None\<close> when the field is
  absent, null or empty, or when the parser raises.\<close>

definition parsed :: "(string \<Rightarrow> datetime option) \<Rightarrow> event \<Rightarrow> datetime option" where
  "parsed fromisoformat ev =
     (case created_at ev of
        None \<Rightarrow> None
      | Some s \<Rightarrow> if s = [] then None else fromisoformat (replace_Z s))"

text \<open>The keys the two activity counters are bumped at.\<close>

definition day_key :: "(string \<Rightarrow> datetime option) \<Rightarrow> event \<Rightarrow> string option" where
  "day_key fromisoformat ev =
     (case parsed fromisoformat ev of None \<Rightarrow> None | Some dt \<Rightarrow> Some (strftime_ymd dt))"

definition hour_key :: "(string \<Rightarrow> datetime option) \<Rightarrow> event \<Rightarrow> nat option" where
  "hour_key fromisoformat ev =
     (case parsed fromisoformat ev of None \<Rightarrow> None | Some dt \<Rightarrow> Some (hour dt))"

definition type_label :: "event \<Rightarrow> string" where
  "type_label ev = (case event_type ev of None \<Rightarrow> ''Unknown'' | Some t \<Rightarrow> t)"

definition occurrences :: "('a \<Rightarrow> bool) \<Rightarrow> 'a list \<Rightarrow> int" where
  "occurrences P xs = int (length (filter P xs))"

subsection \<open>Concrete inputs\<close>

text \<open>Two repositories and a fork between them; the language maps are the ones of
  the conservation example, \<^verbatim>\<open>{"Python": 100}\<close> and \<^verbatim>\<open>{"Python": 50, "Go": 20}\<close>.\<close>

definition two_repos :: "unit github" where
  "two_repos =
     \<lparr>user_query = Response 200 [],
      repos_query = Response 200
        [\<lparr>fork = False, name = ''a'', language = Some ''Python'', stargazers_count = 3,
          size_units = 10\<rparr>,
         \<lparr>fork = True, name = ''f'', language = Some ''C'', stargazers_count = 999,
          size_units = 5000\<rparr>,
         \<lparr>fork = False, name = ''b'', language = None, stargazers_count = 4,
          size_units = 20\<rparr>],
      languages_query = (\<lambda>n. if n = ''a'' then Response 200 [(''Python'', 100)]
                             else if n = ''b'' then Response 200 [(''Python'', 50), (''Go'', 20)]
                             else Response 200 [(''C'', 7000)]),
      events_query = Response 200 []\<rparr>"

text \<open>A parser that knows one timestamp, and ten events: nine carry it (as GitHub
  writes it, with \<^verbatim>\<open>Z\<close>), one carries text that is no timestamp and has no type.\<close>

definition one_timestamp :: "string \<Rightarrow> datetime option" where
  "one_timestamp s =
     (if s = ''2024-01-15T10:30:00+00:00''
      then Some \<lparr>year = 2024, month = 1, day = 15, hour = 10\<rparr> else None)"

definition push_event :: event where
  "push_event = \<lparr>created_at = Some ''2024-01-15T10:30:00Z'', event_type = Some ''PushEvent''\<rparr>"

definition broken_event :: event where
  "broken_event = \<lparr>created_at = Some ''yesterday'', event_type = None\<rparr>"

definition ten_events :: "unit github" where
  "ten_events =
     \<lparr>user_query = Response 200 [], repos_query = Response 404 [],
      languages_query = (\<lambda>n. Raises),
      events_query = Response 200
        [push_event, push_event, push_event, broken_event, push_event, push_event,
         push_event, push_event, push_event, push_event]\<rparr>"

text \<open>Every answer is a success but the last query, which times out.\<close>

definition events_time_out :: "unit github" where
  "events_time_out =
     \<lparr>user_query = Response 200 [], repos_query = Response 200 [],
      languages_query = (\<lambda>n. Response 200 []), events_query = Raises\<rparr>"

section \<open>Python floats\<close>

text \<open>
  The renderers divide integers and compare the quotients with decimal constants;
  which side of a threshold a value falls on depends on how the quotient is
  rounded. A Python \<^verbatim>\<open>float\<close> is an IEEE 754 binary64 number: a finite one is
  written here as the rational number it denotes (the two zeros are one value),
  next to the two infinities and NaN.
\<close>

datatype pyfloat = Fin rat | Infinity bool | NaN

text \<open>\<^verbatim>\<open>int.bit_length()\<close>, for the position of the leading bit.\<close>

function bit_length :: "int \<Rightarrow> int" where
  "bit_length n = (if n \<le> 0 then 0 else 1 + bit_length (n div 2))"
  by pat_completeness auto
termination
  by (relation "measure nat") auto

declare bit_length.simps [simp del]

text \<open>The binary exponent of a positive rational: \<open>2 powi ilog2 q \<le> q < 2 powi (ilog2 q + 1)\<close>.\<close>

definition ilog2 :: "rat \<Rightarrow> int" where
  "ilog2 q = (if 1 \<le> q then bit_length \<lfloor>q\<rfloor> - 1 else - bit_length (\<lceil>1 / q\<rceil> - 1))"

text \<open>Rounding to the nearest integer, a tie to the even one.\<close>

definition round_half_even :: "rat \<Rightarrow> int" where
  "round_half_even x =
     (let n = \<lfloor>x\<rfloor>; d = x - of_int n
      in if d < 1 / 2 then n else if 1 / 2 < d then n + 1 else if even n then n else n + 1)"

text \<open>
  The exponent of the last of the 53 significant bits; below \<open>2 powi (- 1022)\<close> the
  numbers are subnormal and the spacing stays \<open>2 powi (- 1074)\<close>.
\<close>

definition ulp_exponent :: "rat \<Rightarrow> int" where
  "ulp_exponent q = max (ilog2 \<bar>q\<bar>) (- 1022) - 52"

text \<open>The nearest number with 53 significant bits, a tie to the even one, before
  the largest exponent is looked at.\<close>

definition nearest :: "rat \<Rightarrow> rat" where
  "nearest q =
     (if q = 0 then 0
      else of_int (round_half_even (q / 2 powi ulp_exponent q)) * 2 powi ulp_exponent q)"

text \<open>Rounding to binary64: a result of magnitude \<open>2 ^ 1024\<close> or more is an infinity.\<close>

definition round_double :: "rat \<Rightarrow> pyfloat" where
  "round_double q = (let r = nearest q in if \<bar>r\<bar> < 2 ^ 1024 then Fin r else Infinity (0 < q))"

text \<open>A decimal literal such as \<^verbatim>\<open>0.7\<close> is the double nearest to \<open>7 / 10\<close>.\<close>

definition float_literal :: "rat \<Rightarrow> pyfloat" where
  "float_literal q = round_double q"

text \<open>
  \<^verbatim>\<open>a / b\<close> on two \<^verbatim>\<open>int\<close>s: the quotient correctly rounded, \<^verbatim>\<open>ZeroDivisionError\<close> for
  a zero divisor, \<^verbatim>\<open>OverflowError\<close> when the rounded quotient is no finite double.
\<close>

definition truediv :: "int \<Rightarrow> int \<Rightarrow> error + pyfloat" where
  "truediv a b =
     (if b = 0 then Inl ZeroDivisionError
      else (case round_double (of_int a / of_int b) of
              Fin r \<Rightarrow> Inr (Fin r)
            | Infinity s \<Rightarrow> Inl OverflowError
            | NaN \<Rightarrow> Inl OverflowError))"

text \<open>\<^verbatim>\<open>x * y\<close> and \<^verbatim>\<open>x + y\<close> on two floats: no exception, an overflow is an infinity.\<close>

fun fmul :: "pyfloat \<Rightarrow> pyfloat \<Rightarrow> pyfloat" where
  "fmul (Fin a) (Fin b) = round_double (a * b)"
| "fmul (Fin a) (Infinity s) = (if a = 0 then NaN else Infinity (s = (0 < a)))"
| "fmul (Infinity s) (Fin b) = (if b = 0 then NaN else Infinity (s = (0 < b)))"
| "fmul (Infinity s) (Infinity t) = Infinity (s = t)"
| "fmul NaN y = NaN"
| "fmul x NaN = NaN"

fun fadd :: "pyfloat \<Rightarrow> pyfloat \<Rightarrow> pyfloat" where
  "fadd (Fin a) (Fin b) = round_double (a + b)"
| "fadd (Fin a) (Infinity s) = Infinity s"
| "fadd (Infinity s) (Fin b) = Infinity s"
| "fadd (Infinity s) (Infinity t) = (if s = t then Infinity s else NaN)"
| "fadd NaN y = NaN"
| "fadd x NaN = NaN"

text \<open>\<^verbatim>\<open>x < y\<close> on two floats (\<^verbatim>\<open>x > y\<close> is \<open>fless y x\<close>); a comparison with NaN is false.\<close>

fun fless :: "pyfloat \<Rightarrow> pyfloat \<Rightarrow> bool" where
  "fless (Fin a) (Fin b) = (a < b)"
| "fless (Fin a) (Infinity s) = s"
| "fless (Infinity s) (Fin b) = (\<not> s)"
| "fless (Infinity s) (Infinity t) = (\<not> s \<and> t)"
| "fless NaN y = False"
| "fless x NaN = False"

text \<open>\<^verbatim>\<open>math.pi\<close>, the double \<^verbatim>\<open>0x1.921fb54442d18p+1\<close>.\<close>

definition math_pi :: pyfloat where
  "math_pi = Fin (884279719003555 / 281474976710656)"

section \<open>The renderers\<close>

text \<open>
  Each renderer computes numbers from the statistics and prints them into an SVG
  document. The embedding keeps the numbers and the classifications and leaves the
  markup out. A renderer that raises returns \<open>Inl\<close>.
\<close>

text \<open>\<^verbatim>\<open>x or 1\<close> on an \<^verbatim>\<open>int\<close>, and \<^verbatim>\<open>max(xs)\<close> on a list that is not empty.\<close>

definition or_1 :: "int \<Rightarrow> int" where
  "or_1 x = (if x = 0 then 1 else x)"

fun py_max :: "int list \<Rightarrow> int" where
  "py_max [] = 0"
| "py_max (x # xs) = fold max xs x"

text \<open>A list comprehension whose body may raise: the first exception ends it.\<close>

fun map_result :: "('a \<Rightarrow> error + 'b) \<Rightarrow> 'a list \<Rightarrow> error + 'b list" where
  "map_result f [] = Inr []"
| "map_result f (x # xs) =
     (case f x of
        Inl e \<Rightarrow> Inl e
      | Inr y \<Rightarrow> (case map_result f xs of Inl e \<Rightarrow> Inl e | Inr ys \<Rightarrow> Inr (y # ys)))"

text \<open>\<^verbatim>\<open>sorted(d.items(), key=lambda x: x[1], reverse=True)\<close>: by value, largest first,
  equal values in their order in the dictionary.\<close>

definition sorted_by_value :: "string counter \<Rightarrow> string counter" where
  "sorted_by_value d = sort_key (\<lambda>p. - snd p) d"

subsection \<open>Skill Tree\<close>

text \<open>
  \<^verbatim>\<open>if pct > 0.7: "Master" elif pct > 0.4: "Expert" elif pct > 0.2: "Adept"\<close>
  \<^verbatim>\<open>elif pct > 0.08: "Skilled" else: "Novice"\<close>.
\<close>

definition level_of :: "pyfloat \<Rightarrow> string" where
  "level_of pct =
     (if fless (float_literal (7 / 10)) pct then ''Master''
      else if fless (float_literal (4 / 10)) pct then ''Expert''
      else if fless (float_literal (2 / 10)) pct then ''Adept''
      else if fless (float_literal (8 / 100)) pct then ''Skilled''
      else ''Novice'')"

text \<open>\<^verbatim>\<open>pct = bytes_count / max_bytes\<close> and the level read from it.\<close>

definition skill_level :: "int \<Rightarrow> int \<Rightarrow> error + string" where
  "skill_level bytes_count max_bytes =
     (case truediv bytes_count max_bytes of Inl e \<Rightarrow> Inl e | Inr pct \<Rightarrow> Inr (level_of pct))"

definition categories :: "(string \<times> string list) list" where
  "categories =
     [(''Frontend'', [''JavaScript'', ''TypeScript'', ''HTML'', ''CSS'', ''SCSS'', ''Vue'',
                      ''Svelte'', ''Dart'']),
      (''Backend'', [''Python'', ''Java'', ''Go'', ''Rust'', ''Ruby'', ''PHP'', ''C#'', ''Kotlin'',
                     ''Scala'', ''Elixir'', ''Perl'', ''C'', ''C++'', ''Haskell'']),
      (''Data & ML'', [''Jupyter Notebook'', ''R'', ''Lua'']),
      (''DevOps'', [''Shell'', ''Dockerfile''])]"

text \<open>The columns: a category with its languages, when it has any; then
  \<^verbatim>\<open>"Other"\<close> with the languages of no category, when there are any.\<close>

definition categorized :: "string counter \<Rightarrow> (string \<times> string counter) list" where
  "categorized sorted_langs =
     filter (\<lambda>c. snd c \<noteq> [])
       (map (\<lambda>(cat, cat_langs). (cat, filter (\<lambda>p. fst p \<in> set cat_langs) sorted_langs))
          categories) @
     (let uncategorized =
            filter (\<lambda>p. fst p \<notin> set (concat (map snd categories))) sorted_langs
      in if uncategorized \<noteq> [] then [(''Other'', uncategorized)] else [])"

text \<open>\<^verbatim>\<open>max_bytes = max(languages.values()) if languages else 1\<close>.\<close>

definition max_bytes_of :: "string counter \<Rightarrow> int" where
  "max_bytes_of langs = (if langs \<noteq> [] then py_max (map snd langs) else 1)"

record skill_tree =
  columns :: "(string \<times> (string \<times> string) list) list"
  total_langs :: nat
  master_count :: nat

text \<open>
  The skills of a column are its first six languages, each with its level; the
  footer counts the languages with \<^verbatim>\<open>b / max_bytes > 0.7\<close>. Both divide by
  \<^verbatim>\<open>max_bytes\<close>.
\<close>

definition generate_skill_tree :: "string counter \<Rightarrow> error + skill_tree" where
  "generate_skill_tree langs =
     (let sorted_langs = sorted_by_value langs;
          max_bytes = max_bytes_of langs
      in case map_result
                (\<lambda>(cat, items).
                   case map_result
                          (\<lambda>(lang, bytes_count).
                             case skill_level bytes_count max_bytes of
                               Inl e \<Rightarrow> Inl e
                             | Inr level \<Rightarrow> Inr (lang, level))
                          (take 6 items) of
                     Inl e \<Rightarrow> Inl e
                   | Inr skills \<Rightarrow> Inr (cat, skills))
                (categorized sorted_langs) of
           Inl e \<Rightarrow> Inl e
         | Inr cols \<Rightarrow>
             (case map_result (\<lambda>(lang, b). skill_level b max_bytes) sorted_langs of
                Inl e \<Rightarrow> Inl e
              | Inr levels \<Rightarrow>
                  Inr \<lparr>columns = cols, total_langs = length sorted_langs,
                       master_count = length (filter (\<lambda>l. l = ''Master'') levels)\<rparr>))"

subsection \<open>Code Weather\<close>

text \<open>The five bands of a day's count, with the temperature of the first card.\<close>

definition weather_band :: "int \<Rightarrow> string \<times> int" where
  "weather_band today_count =
     (if today_count = 0 then (''Cloudy'', 0)
      else if today_count \<le> 2 then (''Partly Cloudy'', today_count * 12)
      else if today_count \<le> 5 then (''Sunny'', today_count * 10)
      else if today_count \<le> 10 then (''Hot'', today_count * 8)
      else (''Thunderstorm'', min 99 (today_count * 6)))"

datatype trend = Trending_up | Cooling_down | Steady

text \<open>
  \<^verbatim>\<open>if avg_7 > avg_30 * 1.2: up elif avg_7 < avg_30 * 0.8: down else: steady\<close>,
  on floats.
\<close>

definition classify_trend :: "pyfloat \<Rightarrow> pyfloat \<Rightarrow> trend" where
  "classify_trend avg_7 avg_30 =
     (if fless (fmul avg_30 (float_literal (12 / 10))) avg_7 then Trending_up
      else if fless avg_7 (fmul avg_30 (float_literal (8 / 10))) then Cooling_down
      else Steady)"

text \<open>
  \<^verbatim>\<open>last_30\<close>: the counts of today and the 29 days before, \<^verbatim>\<open>daily.get(day, 0)\<close>
  each; \<open>day_name i\<close> is the key of the day \<open>i\<close> days ago. \<^verbatim>\<open>last_7\<close> is its first seven.
\<close>

definition last_30 :: "(nat \<Rightarrow> string) \<Rightarrow> string counter \<Rightarrow> int list" where
  "last_30 day_name daily = map (\<lambda>i. lookup daily (day_name i)) [0..<30]"

definition last_7 :: "(nat \<Rightarrow> string) \<Rightarrow> string counter \<Rightarrow> int list" where
  "last_7 day_name daily = take 7 (last_30 day_name daily)"

text \<open>The trend of a history: \<^verbatim>\<open>avg_7 = sum(last_7) / max(len(last_7), 1)\<close>, and the
  same over thirty days.\<close>

definition trend_of :: "int list \<Rightarrow> error + trend" where
  "trend_of history =
     (case truediv (sum_list (take 7 history)) (max (int (length (take 7 history))) 1) of
        Inl e \<Rightarrow> Inl e
      | Inr avg_7 \<Rightarrow>
          (case truediv (sum_list history) (max (int (length history)) 1) of
             Inl e \<Rightarrow> Inl e
           | Inr avg_30 \<Rightarrow> Inr (classify_trend avg_7 avg_30)))"

text \<open>\<^verbatim>\<open>max_val = max(last_30) if last_30 and max(last_30) > 0 else 1\<close> and the
  height of a bar, \<^verbatim>\<open>max(2, (val / max_val) * chart_h)\<close> with \<^verbatim>\<open>chart_h = 60\<close>.\<close>

definition max_val_of :: "int list \<Rightarrow> int" where
  "max_val_of history = (if history \<noteq> [] \<and> 0 < py_max history then py_max history else 1)"

definition bar_height :: "int \<Rightarrow> int \<Rightarrow> error + pyfloat" where
  "bar_height val max_val =
     (case truediv val max_val of
        Inl e \<Rightarrow> Inl e
      | Inr r \<Rightarrow> (let h = fmul r (Fin 60) in Inr (if fless (Fin 2) h then h else Fin 2)))"

record weather_card =
  today_count :: int
  weather :: string
  temp :: int
  card_trend :: trend
  forecast :: "string list"
  bars :: "pyfloat list"

definition generate_code_weather :: "(nat \<Rightarrow> string) \<Rightarrow> string counter \<Rightarrow> error + weather_card" where
  "generate_code_weather day_name daily =
     (let history = last_30 day_name daily;
          today = (if history \<noteq> [] then hd history else 0)
      in case trend_of history of
           Inl e \<Rightarrow> Inl e
         | Inr t \<Rightarrow>
             (case map_result (\<lambda>val. bar_height val (max_val_of history)) history of
                Inl e \<Rightarrow> Inl e
              | Inr bs \<Rightarrow>
                  Inr \<lparr>today_count = today, weather = fst (weather_band today),
                       temp = snd (weather_band today), card_trend = t,
                       forecast = map (\<lambda>c. fst (weather_band c)) (rev (take 7 history)),
                       bars = bs\<rparr>))"

subsection \<open>Code DNA\<close>

text \<open>\<^verbatim>\<open>int(s, 16)\<close> on a piece of a hexadecimal digest; \<open>None\<close> stands for
  \<^verbatim>\<open>ValueError\<close>, which a digest never causes.\<close>

definition hex_value :: "char \<Rightarrow> int option" where
  "hex_value c =
     (let n = of_char c :: nat
      in if 48 \<le> n \<and> n \<le> 57 then Some (int n - 48)
         else if 97 \<le> n \<and> n \<le> 102 then Some (int n - 87)
         else if 65 \<le> n \<and> n \<le> 70 then Some (int n - 55)
         else None)"

fun int_hex_from :: "int \<Rightarrow> string \<Rightarrow> int option" where
  "int_hex_from acc [] = Some acc"
| "int_hex_from acc (c # cs) =
     (case hex_value c of None \<Rightarrow> None | Some v \<Rightarrow> int_hex_from (16 * acc + v) cs)"

definition int_hex :: "string \<Rightarrow> int option" where
  "int_hex s = (if s = [] then None else int_hex_from 0 s)"

text \<open>
  \<^verbatim>\<open>phase_offset = int(data_hash[:4], 16) / 65535 * math.pi * 2\<close> and
  \<^verbatim>\<open>freq_mod = 0.8 + (int(data_hash[4:8], 16) / 65535) * 0.6\<close>, from the two values
  parsed.
\<close>

definition phase_offset :: "int \<Rightarrow> error + pyfloat" where
  "phase_offset h =
     (case truediv h 65535 of
        Inl e \<Rightarrow> Inl e
      | Inr r \<Rightarrow> Inr (fmul (fmul r math_pi) (Fin 2)))"

definition freq_mod :: "int \<Rightarrow> error + pyfloat" where
  "freq_mod h =
     (case truediv h 65535 of
        Inl e \<Rightarrow> Inl e
      | Inr r \<Rightarrow> Inr (fadd (float_literal (8 / 10)) (fmul r (float_literal (6 / 10)))))"

text \<open>The two parameters of a digest \<^verbatim>\<open>data_hash\<close> (\<open>None\<close>: a piece does not parse).\<close>

definition dna_parameters :: "string \<Rightarrow> (error + pyfloat \<times> pyfloat) option" where
  "dna_parameters data_hash =
     (case (int_hex (take 4 data_hash), int_hex (take 4 (drop 4 data_hash))) of
        (Some h1, Some h2) \<Rightarrow>
          Some (case phase_offset h1 of
                  Inl e \<Rightarrow> Inl e
                | Inr p \<Rightarrow> (case freq_mod h2 of Inl e \<Rightarrow> Inl e | Inr f \<Rightarrow> Inr (p, f)))
      | _ \<Rightarrow> None)"

text \<open>A digest as \<^verbatim>\<open>hexdigest()\<close> writes it: 32 characters, each a digit
  (codes 48 to 57) or one of \<^verbatim>\<open>abcdef\<close> (codes 97 to 102).\<close>

definition hex_char :: "char \<Rightarrow> bool" where
  "hex_char c = (let n = of_char c :: nat in (48 \<le> n \<and> n \<le> 57) \<or> (97 \<le> n \<and> n \<le> 102))"

definition is_hexdigest :: "string \<Rightarrow> bool" where
  "is_hexdigest s = (length s = 32 \<and> list_all hex_char s)"

subsection \<open>Notions the statements about the renderers use\<close>

text \<open>The tier of an exact proportion, by the cut points \<open>0.7\<close>, \<open>0.4\<close>, \<open>0.2\<close> and
  \<open>0.08\<close> taken as rational numbers.\<close>

definition tier :: "rat \<Rightarrow> string" where
  "tier r =
     (if 7 / 10 < r then ''Master''
      else if 4 / 10 < r then ''Expert''
      else if 2 / 10 < r then ''Adept''
      else if 8 / 100 < r then ''Skilled''
      else ''Novice'')"

text \<open>The exact average of a list of counts.\<close>

definition average :: "int list \<Rightarrow> rat" where
  "average xs = of_int (sum_list xs) / of_int (int (length xs))"

text \<open>The program's full turn, \<^verbatim>\<open>math.pi * 2\<close>, as the rational number that double
  is.\<close>

definition full_turn :: rat where
  "full_turn = 884279719003555 / 140737488355328"

subsection \<open>Concrete digests\<close>

text \<open>The MD5 digests of \<^verbatim>\<open>[["Python", 188331]]\<close> and of \<^verbatim>\<open>[]\<close>, the texts
  \<^verbatim>\<open>json.dumps(sorted(languages.items()))\<close> gives for the byte counts
  \<^verbatim>\<open>{"Python": 188331}\<close> and for none at all.\<close>

definition digest_python_188331 :: string where
  "digest_python_188331 = ''ffff9aa385d1e4c18960fdd9c4b33115''"

definition digest_no_languages :: string where
  "digest_no_languages = ''d751713988987e9331980363e24189ce''"

subsection \<open>Concrete histories\<close>

text \<open>Thirty days, today first. The first three have the averages of the
  examples of the specification: \<open>10\<close> against \<open>8\<close>, \<open>6\<close> against \<open>8\<close>, \<open>9\<close> against \<open>10\<close>.
  In the fourth the week's average is \<open>7\<close> and the month's \<open>175 / 30\<close>: exactly a fifth
  more.\<close>

definition week_10_month_8 :: "int list" where
  "week_10_month_8 =
     [10, 10, 10, 10, 10, 10, 10, 10, 10, 10, 10, 10, 10, 10, 10,
      10, 10, 10, 10, 10, 10, 10, 10, 10, 0, 0, 0, 0, 0, 0]"

definition week_6_month_8 :: "int list" where
  "week_6_month_8 =
     [6, 6, 6, 6, 6, 6, 6, 9, 9, 9, 9, 9, 9, 9, 9,
      9, 9, 9, 9, 9, 9, 9, 9, 9, 9, 9, 9, 9, 9, 0]"

definition week_9_month_10 :: "int list" where
  "week_9_month_10 =
     [9, 9, 9, 9, 9, 9, 9, 17, 10, 10, 10, 10, 10, 10, 10,
      10, 10, 10, 10, 10, 10, 10, 10, 10, 10, 10, 10, 10, 10, 10]"

definition week_7_month_175 :: "int list" where
  "week_7_month_175 =
     [7, 7, 7, 7, 7, 7, 7, 16, 5, 5, 5, 5, 5, 5, 5,
      5, 5, 5, 5, 5, 5, 5, 5, 5, 5, 5, 5, 5, 5, 5]"

section \<open>Properties of the aggregator\<close>

lemma keys_dict_add: "keys (dict_add d k v) = insert k (keys d)"
  by (induction d k v rule: dict_add.induct) (auto simp: keys_def)

lemma distinct_dict_add: "distinct (map fst d) \<Longrightarrow> distinct (map fst (dict_add d k v))"
proof (induction d k v rule: dict_add.induct)
  case (2 k' c d k v)
  have "fst ` set (dict_add d k v) = insert k (fst ` set d)"
    using keys_dict_add[of d k v] by (simp add: keys_def)
  with 2 show ?case by auto
qed simp

lemma map_of_dict_add:
  "map_of (dict_add d k v) k' =
     (if k' = k then Some (lookup d k + v) else map_of d k')"
  by (induction d k v rule: dict_add.induct) (auto simp: lookup_def)

lemma lookup_dict_add: "lookup (dict_add d k v) k' = lookup d k' + (if k' = k then v else 0)"
  by (simp add: lookup_def map_of_dict_add)

lemma sum_values_dict_add: "sum_values (dict_add d k v) = sum_values d + v"
  by (induction d k v rule: dict_add.induct) (auto simp: sum_values_def)

lemma keys_Cons: "keys (p # d) = insert (fst p) (keys d)"
  by (simp add: keys_def)

lemma keys_Nil: "keys [] = {}"
  by (simp add: keys_def)

lemma keys_merge_langs: "keys (merge_langs t ls) = keys t \<union> keys ls"
  by (induction t ls rule: merge_langs.induct) (simp_all add: keys_dict_add keys_Cons keys_Nil)

lemma distinct_merge_langs: "distinct (map fst t) \<Longrightarrow> distinct (map fst (merge_langs t ls))"
  by (induction t ls rule: merge_langs.induct) (simp_all add: distinct_dict_add)

lemma lookup_merge_langs: "lookup (merge_langs t ls) l = lookup t l + bytes_of l ls"
  by (induction t ls rule: merge_langs.induct) (simp_all add: lookup_dict_add bytes_of_def)

lemma sum_values_Cons: "sum_values (p # d) = snd p + sum_values d"
  by (simp add: sum_values_def)

lemma sum_values_merge_langs: "sum_values (merge_langs t ls) = sum_values t + sum_values ls"
  by (induction t ls rule: merge_langs.induct)
     (simp_all add: sum_values_dict_add sum_values_Cons, simp add: sum_values_def)

lemma github_api_Inr: "github_api r = Inr x \<Longrightarrow> r \<noteq> Raises \<and> or_empty x = response_body r"
  by (cases r) (auto simp: github_api_def or_empty_def response_body_def split: if_splits)

lemma github_api_Raises: "github_api Raises = Inl RequestException"
  by (simp add: github_api_def)

lemma github_api_Response:
  "github_api (Response c b) = Inr (if c = 200 then Some b else None)"
  by (simp add: github_api_def)

lemma included_Nil: "included [] = []"
  by (simp add: included_def)

lemma included_Cons: "included (r # rs) = (if fork r then included rs else r # included rs)"
  by (simp add: included_def)

lemma loop_result_Nil: "loop_result q [] st = Inr st"
  by (simp add: loop_result_def)

lemma loop_result_Cons:
  "loop_result q (r # rs) (t, d) =
     (if q (name r) = Raises then Inl RequestException
      else loop_result q rs (merge_langs t (response_body (q (name r))), d @ [summarise q r]))"
  by (simp add: loop_result_def)

lemma repo_loop_step:
  "\<not> fork r \<Longrightarrow> repo_loop q (r # rs) (t, d) =
     (if q (name r) = Raises then Inl RequestException
      else repo_loop q rs (merge_langs t (response_body (q (name r))), d @ [summarise q r]))"
proof (cases "q (name r)")
  case Raises
  then show "\<not> fork r \<Longrightarrow> ?thesis" by (simp add: github_api_Raises)
next
  case (Response c b)
  then show "\<not> fork r \<Longrightarrow> ?thesis"
    by (simp add: github_api_Response or_empty_def response_body_def summarise_def)
qed

lemma repo_loop_eq: "repo_loop q rs (t, d) = loop_result q (included rs) (t, d)"
proof (induction rs arbitrary: t d)
  case Nil
  show ?case by (simp add: included_Nil loop_result_Nil)
next
  case (Cons r rs)
  show ?case
  proof (cases "fork r")
    case True
    then show ?thesis using Cons by (simp add: included_Cons)
  next
    case False
    show ?thesis
      unfolding repo_loop_step[OF False] using False
      by (simp only: included_Cons if_False loop_result_Cons Cons)
  qed
qed

lemma occurrences_Nil: "occurrences P [] = 0"
  by (simp add: occurrences_def)

lemma occurrences_Cons: "occurrences P (x # xs) = (if P x then 1 else 0) + occurrences P xs"
  by (simp add: occurrences_def)

lemma count_event_eq:
  "count_event f (daily, hourly, types) ev =
     (case parsed f ev of
        None \<Rightarrow> (daily, hourly, dict_add types (type_label ev) 1)
      | Some dt \<Rightarrow> (dict_add daily (strftime_ymd dt) 1, dict_add hourly (hour dt) 1,
                    dict_add types (type_label ev) 1))"
  by (cases "created_at ev")
     (auto simp: count_event_def parsed_def type_label_def Let_def split: option.splits)

lemma foldl_count_event_sums:
  "foldl (count_event f) (daily, hourly, types) evs = (daily', hourly', types') \<Longrightarrow>
     sum_values daily' = sum_values daily + occurrences (\<lambda>ev. parsed f ev \<noteq> None) evs \<and>
     sum_values hourly' = sum_values hourly + occurrences (\<lambda>ev. parsed f ev \<noteq> None) evs \<and>
     sum_values types' = sum_values types + int (length evs)"
proof (induction evs arbitrary: daily hourly types)
  case Nil
  then show ?case by (simp add: occurrences_Nil)
next
  case (Cons ev evs)
  show ?case
  proof (cases "parsed f ev")
    case None
    with Cons.prems have
      "foldl (count_event f) (daily, hourly, dict_add types (type_label ev) 1) evs
         = (daily', hourly', types')"
      by (simp add: count_event_eq)
    from Cons.IH[OF this] None show ?thesis
      by (simp add: occurrences_Cons sum_values_dict_add)
  next
    case (Some dt)
    with Cons.prems have
      "foldl (count_event f)
         (dict_add daily (strftime_ymd dt) 1, dict_add hourly (hour dt) 1,
          dict_add types (type_label ev) 1) evs = (daily', hourly', types')"
      by (simp add: count_event_eq)
    from Cons.IH[OF this] Some show ?thesis
      by (simp add: occurrences_Cons sum_values_dict_add)
  qed
qed

lemma foldl_count_event_lookup:
  "foldl (count_event f) (daily, hourly, types) evs = (daily', hourly', types') \<Longrightarrow>
     lookup daily' k =
       lookup daily k + occurrences (\<lambda>ev. day_key f ev = Some k) evs \<and>
     lookup hourly' h =
       lookup hourly h + occurrences (\<lambda>ev. hour_key f ev = Some h) evs \<and>
     lookup types' t = lookup types t + occurrences (\<lambda>ev. type_label ev = t) evs"
proof (induction evs arbitrary: daily hourly types)
  case Nil
  then show ?case by (simp add: occurrences_Nil)
next
  case (Cons ev evs)
  show ?case
  proof (cases "parsed f ev")
    case None
    with Cons.prems have
      "foldl (count_event f) (daily, hourly, dict_add types (type_label ev) 1) evs
         = (daily', hourly', types')"
      by (simp add: count_event_eq)
    from Cons.IH[OF this] None show ?thesis
      by (simp add: occurrences_Cons lookup_dict_add day_key_def hour_key_def)
  next
    case (Some dt)
    with Cons.prems have
      "foldl (count_event f)
         (dict_add daily (strftime_ymd dt) 1, dict_add hourly (hour dt) 1,
          dict_add types (type_label ev) 1) evs = (daily', hourly', types')"
      by (simp add: count_event_eq)
    from Cons.IH[OF this] Some show ?thesis
      by (simp add: occurrences_Cons lookup_dict_add day_key_def hour_key_def)
  qed
qed

lemma foldl_count_event_types:
  "snd (snd (foldl (count_event f) (daily, hourly, types) evs)) =
   snd (snd (foldl (count_event g) (daily2, hourly2, types) evs))"
proof (induction evs arbitrary: daily hourly daily2 hourly2 types)
  case Nil
  show ?case by simp
next
  case (Cons ev evs)
  show ?case
    by (cases "parsed f ev"; cases "parsed g ev") (simp_all add: count_event_eq Cons.IH)
qed

lemma github_api_not_Raises:
  "r \<noteq> Raises \<Longrightarrow> \<exists>x. github_api r = Inr x \<and> or_empty x = response_body r"
  by (cases r) (simp_all add: github_api_Response or_empty_def response_body_def)

lemma fetch_user_data_eq:
  "fetch_user_data f api =
     (if transport_error api then Inl RequestException
      else
        (case event_loop f (response_body (events_query api)) of
           (daily, hourly, types) \<Rightarrow>
             Inr \<lparr>user = response_body (user_query api),
                  repos = map (summarise (languages_query api)) (included_repos api),
                  languages = foldl merge_langs [] (map (repo_languages api) (included_repos api)),
                  daily_activity = daily, hourly_activity = hourly, event_types = types,
                  total_repos = length (included_repos api),
                  total_stars = sum_list (map stargazers_count (included_repos api))\<rparr>))"
proof (cases "user_query api = Raises")
  case True
  then show ?thesis by (simp add: fetch_user_data_def transport_error_def github_api_Raises)
next
  case u: False
  then obtain ux where ux: "github_api (user_query api) = Inr ux"
    "or_empty ux = response_body (user_query api)"
    using github_api_not_Raises by blast
  show ?thesis
  proof (cases "repos_query api = Raises")
    case True
    then show ?thesis using ux
      by (simp add: fetch_user_data_def transport_error_def github_api_Raises)
  next
    case r: False
    then obtain rx where rx: "github_api (repos_query api) = Inr rx"
      "or_empty rx = response_body (repos_query api)"
      using github_api_not_Raises by blast
    have loop: "repo_loop (languages_query api) (or_empty rx) ([], []) =
        loop_result (languages_query api) (included_repos api) ([], [])"
      by (simp add: repo_loop_eq rx included_repos_def)
    show ?thesis
    proof (cases "\<exists>r\<in>set (included_repos api). languages_query api (name r) = Raises")
      case True
      then have "loop_result (languages_query api) (included_repos api) ([], [])
          = Inl RequestException"
        by (simp add: loop_result_def)
      then show ?thesis using ux rx loop True
        by (simp add: fetch_user_data_def transport_error_def)
    next
      case l: False
      then have lr: "loop_result (languages_query api) (included_repos api) ([], []) =
          Inr (foldl merge_langs [] (map (repo_languages api) (included_repos api)),
               map (summarise (languages_query api)) (included_repos api))"
      proof -
        have "repo_languages api = (\<lambda>r. response_body (languages_query api (name r)))"
          by (rule ext) (simp add: repo_languages_def)
        then show ?thesis using l by (simp add: loop_result_def)
      qed
      have stars: "rs_stars \<circ> summarise (languages_query api) = stargazers_count"
        by (rule ext) (simp add: summarise_def)
      show ?thesis
      proof (cases "events_query api = Raises")
        case True
        then show ?thesis using ux rx loop lr
          by (simp add: fetch_user_data_def transport_error_def github_api_Raises)
      next
        case e: False
        then obtain ex where ex: "github_api (events_query api) = Inr ex"
          "or_empty ex = response_body (events_query api)"
          using github_api_not_Raises by blast
        have te: "\<not> transport_error api"
          using u r l e by (simp add: transport_error_def)
        show ?thesis using ux rx loop lr ex te stars
          by (simp add: fetch_user_data_def split: prod.splits)
      qed
    qed
  qed
qed

lemma lookup_foldl_merge:
  "lookup (foldl merge_langs t ms) l = lookup t l + (\<Sum>m\<leftarrow>ms. bytes_of l m)"
  by (induction ms arbitrary: t) (simp_all add: lookup_merge_langs)

lemma sum_values_foldl_merge:
  "sum_values (foldl merge_langs t ms) = sum_values t + (\<Sum>m\<leftarrow>ms. sum_values m)"
  by (induction ms arbitrary: t) (simp_all add: sum_values_merge_langs)

lemma keys_foldl_merge:
  "keys (foldl merge_langs t ms) = keys t \<union> (\<Union>m\<in>set ms. keys m)"
  by (induction ms arbitrary: t) (auto simp: keys_merge_langs)

lemma distinct_foldl_merge:
  "distinct (map fst t) \<Longrightarrow> distinct (map fst (foldl merge_langs t ms))"
  by (induction ms arbitrary: t) (simp_all add: distinct_merge_langs)

lemma lookup_Nil: "lookup [] l = 0"
  by (simp add: lookup_def)

lemma sum_values_Nil: "sum_values [] = 0"
  by (simp add: sum_values_def)

lemma fetch_Inr_iff:
  "(\<exists>stats. fetch_user_data f api = Inr stats) \<longleftrightarrow> \<not> transport_error api"
  by (simp add: fetch_user_data_eq split: prod.splits)

lemma fetch_Inr_fields:
  assumes "fetch_user_data f api = Inr stats"
  shows "languages stats = foldl merge_langs [] (map (repo_languages api) (included_repos api))"
    and "repos stats = map (summarise (languages_query api)) (included_repos api)"
    and "total_repos stats = length (included_repos api)"
    and "total_stars stats = sum_list (map stargazers_count (included_repos api))"
    and "(daily_activity stats, hourly_activity stats, event_types stats)
           = event_loop f (response_body (events_query api))"
    and "user stats = response_body (user_query api)"
  using assms by (auto simp: fetch_user_data_eq split: if_splits prod.splits)

text \<open>
  Claim C1. Whenever \<^verbatim>\<open>fetch_user_data\<close> returns, the global \<^verbatim>\<open>languages\<close> dictionary
  has exactly the languages of the non-fork repositories' language maps, maps each
  language to the sum of its byte counts over those repositories, and its total is
  the sum of the repositories' totals: merging adds, it neither replaces nor takes
  a maximum, and no byte is counted twice or lost. The dictionary has no repeated key.
\<close>

theorem language_bytes_merged_by_summation:
  assumes "fetch_user_data f api = Inr stats"
  shows "keys (languages stats) = (\<Union>r\<in>set (included_repos api). keys (repo_languages api r)) \<and>
         lookup (languages stats) l =
           (\<Sum>r\<leftarrow>included_repos api. bytes_of l (repo_languages api r)) \<and>
         sum_values (languages stats) =
           (\<Sum>r\<leftarrow>included_repos api. sum_values (repo_languages api r)) \<and>
         distinct (map fst (languages stats))"
proof -
  note L = fetch_Inr_fields(1)[OF assms]
  have "keys (languages stats) = (\<Union>r\<in>set (included_repos api). keys (repo_languages api r))"
    unfolding L by (simp add: keys_foldl_merge keys_Nil)
  moreover have "lookup (languages stats) l =
      (\<Sum>r\<leftarrow>included_repos api. bytes_of l (repo_languages api r))"
    unfolding L by (simp add: lookup_foldl_merge lookup_Nil comp_def)
  moreover have "sum_values (languages stats) =
      (\<Sum>r\<leftarrow>included_repos api. sum_values (repo_languages api r))"
    unfolding L by (simp add: sum_values_foldl_merge sum_values_Nil comp_def)
  moreover have "distinct (map fst (languages stats))"
    unfolding L by (rule distinct_foldl_merge) simp
  ultimately show ?thesis by blast
qed

lemma two_repos_fetch:
  "fetch_user_data (\<lambda>s. None) two_repos =
     Inr \<lparr>user = [],
          repos = [\<lparr>rs_name = ''a'', rs_language = ''Python'', rs_stars = 3, rs_size = 10,
                    rs_languages = [(''Python'', 100)]\<rparr>,
                   \<lparr>rs_name = ''b'', rs_language = ''Other'', rs_stars = 4, rs_size = 20,
                    rs_languages = [(''Python'', 50), (''Go'', 20)]\<rparr>],
          languages = [(''Python'', 150), (''Go'', 20)],
          daily_activity = [], hourly_activity = [], event_types = [],
          total_repos = 2, total_stars = 7\<rparr>"
  by (simp add: fetch_user_data_def two_repos_def github_api_def or_empty_def
      language_or_other_def event_loop_def)

text \<open>The example of the specification: \<^verbatim>\<open>{"Python": 100}\<close> and
  \<^verbatim>\<open>{"Python": 50, "Go": 20}\<close> give \<^verbatim>\<open>{"Python": 150, "Go": 20}\<close>.\<close>

theorem language_bytes_merged_by_summation_witness:
  "\<exists>stats. fetch_user_data (\<lambda>s. None) two_repos = Inr stats \<and>
      languages stats = [(''Python'', 150), (''Go'', 20)] \<and>
      keys (languages stats) = {''Python'', ''Go''} \<and>
      lookup (languages stats) ''Python'' = 100 + 50 \<and>
      lookup (languages stats) ''Go'' = 20 \<and>
      sum_values (languages stats) = 100 + (50 + 20)"
proof -
  let ?stats = "\<lparr>user = [],
          repos = [\<lparr>rs_name = ''a'', rs_language = ''Python'', rs_stars = 3, rs_size = 10,
                    rs_languages = [(''Python'', 100)]\<rparr>,
                   \<lparr>rs_name = ''b'', rs_language = ''Other'', rs_stars = 4, rs_size = 20,
                    rs_languages = [(''Python'', 50), (''Go'', 20)]\<rparr>],
          languages = [(''Python'', 150), (''Go'', 20)],
          daily_activity = [], hourly_activity = [], event_types = [],
          total_repos = 2, total_stars = 7\<rparr> :: unit profile_stats"
  have f: "fetch_user_data (\<lambda>s. None) two_repos = Inr ?stats"
    by (rule two_repos_fetch)
  have inc: "included_repos two_repos =
      [\<lparr>fork = False, name = ''a'', language = Some ''Python'', stargazers_count = 3,
        size_units = 10\<rparr>,
       \<lparr>fork = False, name = ''b'', language = None, stargazers_count = 4, size_units = 20\<rparr>]"
    by (simp add: included_repos_def included_def two_repos_def response_body_def)
  have a: "repo_languages two_repos
      \<lparr>fork = False, name = ''a'', language = Some ''Python'', stargazers_count = 3,
        size_units = 10\<rparr> = [(''Python'', 100)]"
    by (simp add: repo_languages_def two_repos_def response_body_def)
  have b: "repo_languages two_repos
      \<lparr>fork = False, name = ''b'', language = None, stargazers_count = 4, size_units = 20\<rparr>
      = [(''Python'', 50), (''Go'', 20)]"
    by (simp add: repo_languages_def two_repos_def response_body_def)
  from language_bytes_merged_by_summation[OF f, of "''Python''"]
       language_bytes_merged_by_summation[OF f, of "''Go''"]
  have "keys (languages ?stats) = {''Python'', ''Go''} \<and>
        lookup (languages ?stats) ''Python'' = 100 + 50 \<and>
        lookup (languages ?stats) ''Go'' = 20 \<and>
        sum_values (languages ?stats) = 100 + (50 + 20)"
    unfolding inc by (simp add: a b bytes_of_def sum_values_def keys_def insert_commute)
  with f show ?thesis by (intro exI[of _ ?stats]) simp
qed

lemma included_idem: "included (included rs) = included rs"
  by (simp add: included_def)

lemma without_forks_fields:
  "user_query (without_forks api) = user_query api"
  "languages_query (without_forks api) = languages_query api"
  "events_query (without_forks api) = events_query api"
  "included_repos (without_forks api) = included_repos api"
  "repos_query (without_forks api) = Raises \<longleftrightarrow> repos_query api = Raises"
  by (cases "repos_query api";
      simp add: without_forks_def included_repos_def response_body_def included_idem
                included_Nil)+

lemma transport_error_without_forks:
  "transport_error (without_forks api) = transport_error api"
  by (simp add: transport_error_def without_forks_fields)

lemma repo_languages_without_forks: "repo_languages (without_forks api) = repo_languages api"
  by (rule ext) (simp add: repo_languages_def without_forks_fields)

lemma fetch_without_forks: "fetch_user_data f (without_forks api) = fetch_user_data f api"
  unfolding fetch_user_data_eq transport_error_without_forks repo_languages_without_forks
  by (simp only: without_forks_fields)

text \<open>
  Claim C2. Taking the forks out of the repository list changes nothing in what
  \<^verbatim>\<open>fetch_user_data\<close> returns (so a fork gives nothing to any total, whatever its
  stars and size), \<^verbatim>\<open>total_repos\<close> is the number of non-fork repositories and
  \<^verbatim>\<open>total_stars\<close> the sum of their star counts.
\<close>

theorem forks_contribute_nothing:
  "fetch_user_data f (without_forks api) = fetch_user_data f api \<and>
   (\<forall>stats. fetch_user_data f api = Inr stats \<longrightarrow>
      total_repos stats = length (included_repos api) \<and>
      total_stars stats = (\<Sum>r\<leftarrow>included_repos api. stargazers_count r) \<and>
      map rs_name (repos stats) = map name (included_repos api))"
proof -
  have n: "rs_name \<circ> summarise (languages_query api) = name"
    by (rule ext) (simp add: summarise_def)
  show ?thesis
    using fetch_Inr_fields(2,3,4)[of f api]
    by (simp add: fetch_without_forks n)
qed

theorem forks_contribute_nothing_witness:
  "fetch_user_data (\<lambda>s. None) (without_forks two_repos) = fetch_user_data (\<lambda>s. None) two_repos \<and>
   (\<exists>stats. fetch_user_data (\<lambda>s. None) two_repos = Inr stats \<and>
      total_repos stats = 2 \<and> total_stars stats = 3 + 4 \<and>
      map rs_name (repos stats) = [''a'', ''b''] \<and>
      languages stats = [(''Python'', 150), (''Go'', 20)])"
proof -
  have inc: "included_repos two_repos =
      [\<lparr>fork = False, name = ''a'', language = Some ''Python'', stargazers_count = 3,
        size_units = 10\<rparr>,
       \<lparr>fork = False, name = ''b'', language = None, stargazers_count = 4, size_units = 20\<rparr>]"
    by (simp add: included_repos_def included_def two_repos_def response_body_def)
  show ?thesis
    using forks_contribute_nothing[of "\<lambda>s. None" two_repos]
    unfolding inc by (simp add: two_repos_fetch)
qed

lemma event_loop_sums:
  assumes "event_loop f evs = (daily, hourly, types)"
  shows "sum_values daily = occurrences (\<lambda>ev. parsed f ev \<noteq> None) evs"
    and "sum_values hourly = occurrences (\<lambda>ev. parsed f ev \<noteq> None) evs"
    and "sum_values types = int (length evs)"
  using foldl_count_event_sums[of f "[]" "[]" "[]" evs daily hourly types] assms
  by (simp_all add: event_loop_def sum_values_Nil)

lemma event_loop_lookup:
  assumes "event_loop f evs = (daily, hourly, types)"
  shows "lookup daily k = occurrences (\<lambda>ev. day_key f ev = Some k) evs"
    and "lookup hourly h = occurrences (\<lambda>ev. hour_key f ev = Some h) evs"
    and "lookup types t = occurrences (\<lambda>ev. type_label ev = t) evs"
  using foldl_count_event_lookup[of f "[]" "[]" "[]" evs daily hourly types k h t] assms
  by (simp_all add: event_loop_def lookup_Nil)

lemma event_loop_types: "snd (snd (event_loop f evs)) = snd (snd (event_loop g evs))"
  unfolding event_loop_def by (rule foldl_count_event_types)

lemma fetch_returns:
  assumes "\<not> transport_error api"
  obtains stats where "fetch_user_data f api = Inr stats"
  using assms fetch_Inr_iff[of f api] by blast

text \<open>
  Claim C5. When no query raises, \<^verbatim>\<open>fetch_user_data\<close> returns, whatever the
  timestamps are, and each of the two activity counters has been bumped once per
  event whose timestamp is present and parses, at the key of that timestamp: an
  event whose timestamp does not parse bumps neither and stops nothing.
\<close>

theorem malformed_timestamp_skipped:
  assumes "\<not> transport_error api"
  shows "\<exists>stats. fetch_user_data f api = Inr stats \<and>
     sum_values (daily_activity stats) =
       occurrences (\<lambda>ev. parsed f ev \<noteq> None) (response_body (events_query api)) \<and>
     sum_values (hourly_activity stats) =
       occurrences (\<lambda>ev. parsed f ev \<noteq> None) (response_body (events_query api)) \<and>
     (\<forall>k. lookup (daily_activity stats) k =
        occurrences (\<lambda>ev. day_key f ev = Some k)
          (response_body (events_query api))) \<and>
     (\<forall>h. lookup (hourly_activity stats) h =
        occurrences (\<lambda>ev. hour_key f ev = Some h)
          (response_body (events_query api)))"
proof -
  from assms obtain stats where s: "fetch_user_data f api = Inr stats"
    by (rule fetch_returns)
  note e = fetch_Inr_fields(5)[OF s, symmetric]
  show ?thesis
    using s event_loop_sums(1,2)[OF e] event_loop_lookup(1,2)[OF e] by blast
qed

lemma ten_events_ok: "\<not> transport_error ten_events"
  by (simp add: transport_error_def ten_events_def included_repos_def response_body_def
      included_def)

lemma parsed_push: "parsed one_timestamp push_event
    = Some \<lparr>year = 2024, month = 1, day = 15, hour = 10\<rparr>"
  by (simp add: parsed_def push_event_def one_timestamp_def)

lemma parsed_broken: "parsed one_timestamp broken_event = None"
  by (simp add: parsed_def broken_event_def one_timestamp_def)

lemma day_push: "day_key one_timestamp push_event = Some ''2024-01-15''"
  by code_simp

lemma hour_push: "hour_key one_timestamp push_event = Some 10"
  by (simp add: hour_key_def parsed_def push_event_def one_timestamp_def)

lemma day_hour_broken:
  "day_key one_timestamp broken_event = None"
  "hour_key one_timestamp broken_event = None"
  by (simp_all add: day_key_def hour_key_def parsed_def broken_event_def one_timestamp_def)

text \<open>One event that does not parse among ten: nine increments in each counter.\<close>

theorem malformed_timestamp_skipped_witness:
  "\<not> transport_error ten_events \<and>
   length (response_body (events_query ten_events)) = 10 \<and>
   (\<exists>stats. fetch_user_data one_timestamp ten_events = Inr stats \<and>
      sum_values (daily_activity stats) = 9 \<and>
      sum_values (hourly_activity stats) = 9 \<and>
      lookup (daily_activity stats) ''2024-01-15'' = 9 \<and>
      lookup (hourly_activity stats) 10 = 9)"
proof -
  have evs: "response_body (events_query ten_events) =
      [push_event, push_event, push_event, broken_event, push_event, push_event,
       push_event, push_event, push_event, push_event]"
    by (simp add: ten_events_def response_body_def)
  from malformed_timestamp_skipped[OF ten_events_ok, of one_timestamp]
  obtain stats where s: "fetch_user_data one_timestamp ten_events = Inr stats"
    and d: "sum_values (daily_activity stats) =
       occurrences (\<lambda>ev. parsed one_timestamp ev \<noteq> None) (response_body (events_query ten_events))"
    and h: "sum_values (hourly_activity stats) =
       occurrences (\<lambda>ev. parsed one_timestamp ev \<noteq> None) (response_body (events_query ten_events))"
    and dk: "lookup (daily_activity stats) ''2024-01-15'' =
        occurrences (\<lambda>ev. day_key one_timestamp ev = Some ''2024-01-15'')
          (response_body (events_query ten_events))"
    and hk: "lookup (hourly_activity stats) 10 =
        occurrences (\<lambda>ev. hour_key one_timestamp ev = Some 10)
          (response_body (events_query ten_events))"
    by blast
  have "sum_values (daily_activity stats) = 9" "sum_values (hourly_activity stats) = 9"
    unfolding d h evs by (simp_all add: occurrences_def parsed_push parsed_broken)
  moreover have "lookup (daily_activity stats) ''2024-01-15'' = 9"
    "lookup (hourly_activity stats) 10 = 9"
    unfolding dk hk evs by (simp_all add: occurrences_def day_push hour_push day_hour_broken)
  ultimately show ?thesis using s ten_events_ok evs by auto
qed

text \<open>
  Claim C10. When no query raises, \<^verbatim>\<open>event_types\<close> counts every event of the
  answer under its type, \<^verbatim>\<open>"Unknown"\<close> for an event without one; the counter is the
  same as with a parser that rejects every timestamp.
\<close>

theorem event_types_count_every_event:
  assumes "\<not> transport_error api"
  shows "\<exists>stats. fetch_user_data f api = Inr stats \<and>
     sum_values (event_types stats) = int (length (response_body (events_query api))) \<and>
     (\<forall>t. lookup (event_types stats) t =
        occurrences (\<lambda>ev. type_label ev = t) (response_body (events_query api))) \<and>
     (\<forall>stats'. fetch_user_data (\<lambda>s. None) api = Inr stats' \<longrightarrow>
        event_types stats = event_types stats')"
proof -
  from assms obtain stats where s: "fetch_user_data f api = Inr stats"
    by (rule fetch_returns)
  note e = fetch_Inr_fields(5)[OF s, symmetric]
  have "event_types stats = event_types stats'"
    if "fetch_user_data (\<lambda>s. None) api = Inr stats'" for stats'
    using fetch_Inr_fields(5)[OF that] fetch_Inr_fields(5)[OF s]
      event_loop_types[of f "response_body (events_query api)" "\<lambda>s. None"]
    by (metis snd_conv)
  then show ?thesis
    using s event_loop_sums(3)[OF e] event_loop_lookup(3)[OF e] by blast
qed

lemma label_push: "type_label push_event = ''PushEvent''"
  by (simp add: type_label_def push_event_def)

lemma label_broken: "type_label broken_event = ''Unknown''"
  by (simp add: type_label_def broken_event_def)

text \<open>The event whose timestamp does not parse is counted under \<^verbatim>\<open>"Unknown"\<close>,
  while the daily counter holds nine.\<close>

theorem event_types_count_every_event_witness:
  "\<not> transport_error ten_events \<and> parsed one_timestamp broken_event = None \<and>
   (\<exists>stats. fetch_user_data one_timestamp ten_events = Inr stats \<and>
      sum_values (event_types stats) = 10 \<and>
      lookup (event_types stats) ''Unknown'' = 1 \<and>
      lookup (event_types stats) ''PushEvent'' = 9 \<and>
      sum_values (daily_activity stats) = 9)"
proof -
  have evs: "response_body (events_query ten_events) =
      [push_event, push_event, push_event, broken_event, push_event, push_event,
       push_event, push_event, push_event, push_event]"
    by (simp add: ten_events_def response_body_def)
  from event_types_count_every_event[OF ten_events_ok, of one_timestamp]
  obtain stats where s: "fetch_user_data one_timestamp ten_events = Inr stats"
    and n: "sum_values (event_types stats) = int (length (response_body (events_query ten_events)))"
    and u: "lookup (event_types stats) ''Unknown'' =
        occurrences (\<lambda>ev. type_label ev = ''Unknown'') (response_body (events_query ten_events))"
    and p: "lookup (event_types stats) ''PushEvent'' =
        occurrences (\<lambda>ev. type_label ev = ''PushEvent'') (response_body (events_query ten_events))"
    by blast
  have d: "sum_values (daily_activity stats) = 9"
    using event_loop_sums(1)[OF fetch_Inr_fields(5)[OF s, symmetric]]
    unfolding evs by (simp add: occurrences_def parsed_push parsed_broken)
  have "sum_values (event_types stats) = 10" "lookup (event_types stats) ''Unknown'' = 1"
    "lookup (event_types stats) ''PushEvent'' = 9"
    unfolding n u p evs by (simp_all add: occurrences_def label_push label_broken)
  with s d ten_events_ok parsed_broken show ?thesis by auto
qed

lemma response_body_degrade: "response_body (degrade r) = response_body r"
  by (cases r) (simp_all add: degrade_def response_body_def)

lemma degrade_Raises: "degrade r = Raises \<longleftrightarrow> r = Raises"
  by (cases r) (simp_all add: degrade_def)

lemma degraded_fields:
  "response_body (user_query (degraded api)) = response_body (user_query api)"
  "response_body (events_query (degraded api)) = response_body (events_query api)"
  "included_repos (degraded api) = included_repos api"
  "repo_languages (degraded api) = repo_languages api"
  "summarise (languages_query (degraded api)) = summarise (languages_query api)"
  "transport_error (degraded api) = transport_error api"
proof -
  show 1: "included_repos (degraded api) = included_repos api"
    by (simp add: included_repos_def degraded_def response_body_degrade)
  show "transport_error (degraded api) = transport_error api"
    unfolding transport_error_def 1 by (simp add: degraded_def degrade_Raises)
qed (auto simp: degraded_def response_body_degrade repo_languages_def summarise_def)

lemma fetch_degraded: "fetch_user_data f (degraded api) = fetch_user_data f api"
  unfolding fetch_user_data_eq by (simp only: degraded_fields)

lemma non_success_is_empty:
  "c \<noteq> 200 \<Longrightarrow> github_api (Response c body) = Inr None \<and> or_empty None = []"
  by (simp add: github_api_Response or_empty_def)

text \<open>
  Claim C6, as stated, fails on the code: \<^verbatim>\<open>github_api\<close> turns a non-success
  status into \<^verbatim>\<open>None\<close>, but \<^verbatim>\<open>requests.get\<close> is called outside any \<^verbatim>\<open>try\<close>, so a
  connection error or the timeout leaves \<^verbatim>\<open>github_api\<close> and \<^verbatim>\<open>fetch_user_data\<close> as an
  exception. Here three queries succeed and the event query times out.
\<close>

theorem timeout_aborts_aggregation:
  "fetch_user_data one_timestamp events_time_out = Inl RequestException"
  by (simp add: fetch_user_data_eq transport_error_def events_time_out_def)

text \<open>
  Claim C6, amended. A query answered with a status other than 200 gives \<^verbatim>\<open>None\<close>,
  which \<^verbatim>\<open>or []\<close> and \<^verbatim>\<open>or {}\<close> turn into the empty collection: the aggregator
  returns what it returns when every such answer is replaced by a success that
  carries the empty collection. It returns a statistics record exactly when none
  of the queries it makes raises; when one raises, the exception leaves
  \<^verbatim>\<open>fetch_user_data\<close>.
\<close>

theorem failed_status_degrades_to_empty:
  "(\<forall>c body. c \<noteq> 200 \<longrightarrow>
      (github_api (Response c body) :: error + 'u list option) = Inr None \<and>
      or_empty (None :: 'u list option) = []) \<and>
   fetch_user_data f (degraded api) = fetch_user_data f api \<and>
   ((\<exists>stats. fetch_user_data f api = Inr stats) \<longleftrightarrow> \<not> transport_error api) \<and>
   (transport_error api \<longrightarrow> fetch_user_data f api = Inl RequestException)"
proof -
  have "transport_error api \<longrightarrow> fetch_user_data f api = Inl RequestException"
    by (simp add: fetch_user_data_eq)
  moreover have "\<forall>c body. c \<noteq> 200 \<longrightarrow>
      (github_api (Response c body) :: error + 'u list option) = Inr None \<and>
      or_empty (None :: 'u list option) = []"
    by (simp add: github_api_Response or_empty_def)
  ultimately show ?thesis
    using fetch_Inr_iff[of f api] fetch_degraded[of f api] by blast
qed

lemma degraded_ten_events:
  "degraded ten_events =
     \<lparr>user_query = Response 200 [], repos_query = Response 200 [],
      languages_query = (\<lambda>n. Raises),
      events_query = Response 200
        [push_event, push_event, push_event, broken_event, push_event, push_event,
         push_event, push_event, push_event, push_event]\<rparr>"
  by (simp add: degraded_def ten_events_def degrade_def)

theorem failed_status_degrades_to_empty_witness:
  "(github_api (Response 404 [()]) :: error + unit list option) = Inr None \<and>
   or_empty (None :: unit list option) = [] \<and>
   \<not> transport_error ten_events \<and>
   (\<exists>stats. fetch_user_data one_timestamp ten_events = Inr stats \<and> repos stats = [] \<and>
      languages stats = [] \<and> total_repos stats = 0) \<and>
   fetch_user_data one_timestamp
     \<lparr>user_query = Response 200 [], repos_query = Response 200 [],
      languages_query = (\<lambda>n. Raises),
      events_query = Response 200
        [push_event, push_event, push_event, broken_event, push_event, push_event,
         push_event, push_event, push_event, push_event]\<rparr>
     = fetch_user_data one_timestamp ten_events \<and>
   transport_error events_time_out \<and>
   fetch_user_data one_timestamp events_time_out = Inl RequestException"
proof -
  have inc: "included_repos ten_events = []"
    by (simp add: included_repos_def ten_events_def response_body_def included_def)
  have te: "transport_error events_time_out"
    by (simp add: transport_error_def events_time_out_def)
  note T = failed_status_degrades_to_empty[of one_timestamp ten_events]
  have a: "(github_api (Response 404 [()]) :: error + unit list option) = Inr None"
    and b: "or_empty (None :: unit list option) = []"
    using T[THEN conjunct1, rule_format, of 404 "[()]"] by simp_all
  have c: "fetch_user_data one_timestamp (degraded ten_events)
              = fetch_user_data one_timestamp ten_events"
    and d: "\<exists>stats. fetch_user_data one_timestamp ten_events = Inr stats"
    using T ten_events_ok by blast+
  from d obtain stats where s: "fetch_user_data one_timestamp ten_events = Inr stats" ..
  have "repos stats = []" "languages stats = []" "total_repos stats = 0"
    using fetch_Inr_fields(1,2,3)[OF s] by (simp_all add: inc)
  moreover have "fetch_user_data one_timestamp events_time_out = Inl RequestException"
    using failed_status_degrades_to_empty[of one_timestamp events_time_out] te by blast
  ultimately show ?thesis
    using a b c s te ten_events_ok by (simp add: degraded_ten_events)
qed

section \<open>Properties of the rounding\<close>

lemma bit_length_nonpos: "n \<le> 0 \<Longrightarrow> bit_length n = 0"
  by (simp add: bit_length.simps)

lemma bit_length_pos_rec: "0 < n \<Longrightarrow> bit_length n = 1 + bit_length (n div 2)"
  by (subst bit_length.simps) simp

lemma bit_length_bounds:
  "0 < n \<Longrightarrow> 1 \<le> bit_length n \<and> 2 ^ nat (bit_length n - 1) \<le> n \<and> n < 2 ^ nat (bit_length n)"
proof (induction n rule: bit_length.induct)
  case (1 n)
  show ?case
  proof (cases "n div 2 \<le> 0")
    case True
    with 1(2) have n1: "n = 1" by linarith
    have "bit_length 1 = 1"
      by (simp add: bit_length_pos_rec bit_length_nonpos)
    with n1 show ?thesis by simp
  next
    case False
    then have pos: "0 < n div 2" by simp
    from 1(1)[OF _ pos] 1(2)
    have k: "1 \<le> bit_length (n div 2)"
      and lo: "2 ^ nat (bit_length (n div 2) - 1) \<le> n div 2"
      and hi: "n div 2 < 2 ^ nat (bit_length (n div 2))"
      by auto
    define k where "k = bit_length (n div 2)"
    have bl: "bit_length n = 1 + k"
      using 1(2) by (simp add: bit_length_pos_rec k_def)
    have e1: "nat (1 + k - 1) = Suc (nat (k - 1))" using k by (simp add: k_def nat_diff_distrib)
    have e2: "nat (1 + k) = Suc (nat k)" using k by (simp add: k_def)
    have e3: "nat k = Suc (nat (k - 1))" using k by (simp add: k_def)
    have "2 * 2 ^ nat (k - 1) \<le> 2 * (n div 2)" using lo by (simp add: k_def)
    also have "\<dots> \<le> n" by simp
    finally have "2 ^ Suc (nat (k - 1)) \<le> n" by simp
    then have a: "2 ^ nat (bit_length n - 1) \<le> n" unfolding bl e1 .
    have "n div 2 + 1 \<le> 2 ^ nat k" using hi by (simp add: k_def)
    then have "2 * (n div 2) + 2 \<le> 2 * 2 ^ nat k" by simp
    moreover have "n \<le> 2 * (n div 2) + 1" by presburger
    ultimately have "n < 2 ^ Suc (nat k)" by simp
    then have b: "n < 2 ^ nat (bit_length n)" unfolding bl e2 .
    from a b k show ?thesis by (simp add: bl k_def)
  qed
qed

lemma ilog2_bounds:
  assumes "0 < q"
  shows "2 powi ilog2 q \<le> q \<and> q < 2 powi (ilog2 q + 1)"
proof (cases "1 \<le> q")
  case True
  define n where "n = \<lfloor>q\<rfloor>"
  have npos: "0 < n" using True by (simp add: n_def)
  note b = bit_length_bounds[OF npos]
  define k where "k = bit_length n"
  have il: "ilog2 q = k - 1" using True by (simp add: ilog2_def n_def k_def)
  have k1: "1 \<le> k" using b by (simp add: k_def)
  have "(2::rat) powi (k - 1) = 2 ^ nat (k - 1)"
    using k1 by (simp add: power_int_def)
  also have "\<dots> = of_int (2 ^ nat (k - 1))" by simp
  also have "\<dots> \<le> of_int n" using b unfolding k_def[symmetric] by (subst of_int_le_iff) simp
  also have "\<dots> \<le> q" by (simp add: n_def)
  finally have lo: "2 powi (k - 1) \<le> q" .
  have "q < of_int (n + 1)" unfolding n_def by linarith
  also have "\<dots> \<le> of_int (2 ^ nat k)"
    using b unfolding k_def[symmetric] by (subst of_int_le_iff) simp
  also have "\<dots> = (2::rat) powi k" using k1 by (simp add: power_int_def)
  finally have hi: "q < 2 powi k" .
  from lo hi show ?thesis by (simp add: il)
next
  case False
  then have q1: "q < 1" by simp
  define m where "m = \<lceil>1 / q\<rceil> - 1"
  have "1 < 1 / q" using assms q1 by simp
  then have "1 < \<lceil>1 / q\<rceil>" by linarith
  then have mpos: "0 < m" by (simp add: m_def)
  note b = bit_length_bounds[OF mpos]
  define k where "k = bit_length m"
  have il: "ilog2 q = - k" using False by (simp add: ilog2_def m_def k_def)
  have k1: "1 \<le> k" using b by (simp add: k_def)
  have p2: "(0::rat) < 2 ^ nat k" by simp
  have "1 / q \<le> of_int (m + 1)" unfolding m_def by simp
  also have "\<dots> \<le> of_int (2 ^ nat k)"
    using b unfolding k_def[symmetric] by (subst of_int_le_iff) simp
  finally have "1 / q \<le> 2 ^ nat k" by simp
  then have "1 \<le> 2 ^ nat k * q" using assms by (simp add: field_simps)
  then have "1 / 2 ^ nat k \<le> q" using p2 by (simp add: field_simps)
  moreover have "(2::rat) powi (- k) = 1 / 2 ^ nat k"
    using k1 by (simp add: power_int_def field_simps)
  ultimately have lo: "2 powi (- k) \<le> q" by simp
  have "of_int (2 ^ nat (k - 1)) \<le> (of_int m :: rat)"
    using b unfolding k_def[symmetric] by (subst of_int_le_iff) simp
  also have "of_int m < 1 / q" unfolding m_def by linarith
  finally have "2 ^ nat (k - 1) < 1 / q" by simp
  then have "2 ^ nat (k - 1) * q < 1" using assms by (simp add: field_simps)
  then have "q < 1 / 2 ^ nat (k - 1)" by (simp add: field_simps)
  moreover have "(2::rat) powi (- k + 1) = 1 / 2 ^ nat (k - 1)"
  proof -
    have "(2::rat) powi (- (k - 1)) = inverse (2 powi (k - 1))"
      by (rule power_int_minus)
    also have "(2::rat) powi (k - 1) = 2 ^ nat (k - 1)"
      using k1 by (simp add: power_int_def)
    finally show ?thesis by (simp add: field_simps)
  qed
  ultimately have hi: "q < 2 powi (- k + 1)" by simp
  from lo hi show ?thesis by (simp add: il)
qed

lemma two_powi_pos: "(0::rat) < 2 powi e"
  by (simp add: zero_less_power_int)

lemma two_powi_less_cancel: "(2::rat) powi a < 2 powi b \<Longrightarrow> a < b"
  by (metis linorder_not_less one_le_numeral power_int_increasing)

lemma two_powi_mono: "a \<le> b \<Longrightarrow> (2::rat) powi a \<le> 2 powi b"
  by (rule power_int_increasing) simp_all

lemma ilog2_unique:
  assumes "2 powi e \<le> q" "q < 2 powi (e + 1)"
  shows "ilog2 q = e"
proof -
  have qpos: "0 < q" using two_powi_pos[of e] assms(1) by linarith
  from ilog2_bounds[OF qpos] have lo: "2 powi ilog2 q \<le> q" and hi: "q < 2 powi (ilog2 q + 1)"
    by simp_all
  have "(2::rat) powi e < 2 powi (ilog2 q + 1)" using assms(1) hi by linarith
  then have "e < ilog2 q + 1" by (rule two_powi_less_cancel)
  moreover have "(2::rat) powi ilog2 q < 2 powi (e + 1)" using assms(2) lo by linarith
  then have "ilog2 q < e + 1" by (rule two_powi_less_cancel)
  ultimately show ?thesis by simp
qed

lemma ilog2_mono:
  assumes "0 < x" "x \<le> y"
  shows "ilog2 x \<le> ilog2 y"
proof -
  have "2 powi ilog2 x \<le> x" using ilog2_bounds[OF assms(1)] by simp
  also have "x \<le> y" by fact
  also have "y < 2 powi (ilog2 y + 1)" using ilog2_bounds[of y] assms by simp
  finally have "ilog2 x < ilog2 y + 1" by (rule two_powi_less_cancel)
  then show ?thesis by simp
qed

lemma round_half_even_cases:
  "round_half_even x = \<lfloor>x\<rfloor> \<or> round_half_even x = \<lfloor>x\<rfloor> + 1"
  by (simp add: round_half_even_def Let_def)

lemma round_half_even_error: "\<bar>of_int (round_half_even x) - x\<bar> \<le> 1 / 2"
proof -
  define n where "n = \<lfloor>x\<rfloor>"
  have "of_int n \<le> x" "x < of_int n + 1" unfolding n_def by linarith+
  then show ?thesis
    unfolding round_half_even_def Let_def n_def[symmetric]
    by (simp add: abs_if)
qed

lemma round_half_even_of_int: "round_half_even (of_int n) = n"
  by (simp add: round_half_even_def Let_def)

lemma round_half_even_mono:
  assumes "x \<le> y"
  shows "round_half_even x \<le> round_half_even y"
proof (cases "\<lfloor>x\<rfloor> = \<lfloor>y\<rfloor>")
  case True
  then show ?thesis using assms
    by (auto simp: round_half_even_def Let_def)
next
  case False
  then have "\<lfloor>x\<rfloor> < \<lfloor>y\<rfloor>" using floor_mono[OF assms] by simp
  then have "\<lfloor>x\<rfloor> + 1 \<le> \<lfloor>y\<rfloor>" by simp
  moreover have "round_half_even x \<le> \<lfloor>x\<rfloor> + 1" using round_half_even_cases[of x] by auto
  moreover have "\<lfloor>y\<rfloor> \<le> round_half_even y" using round_half_even_cases[of y] by auto
  ultimately show ?thesis by linarith
qed

lemma round_half_even_minus: "round_half_even (- x) = - round_half_even x"
proof (cases "x = of_int \<lfloor>x\<rfloor>")
  case True
  then obtain n where "x = of_int n" ..
  then have "- x = of_int (- n)" by simp
  then show ?thesis using \<open>x = of_int n\<close> by (simp only: round_half_even_of_int)
next
  case False
  define n where "n = \<lfloor>x\<rfloor>"
  have lt: "of_int n < x" "x < of_int n + 1" using False unfolding n_def by linarith+
  have fl: "\<lfloor>- x\<rfloor> = - n - 1"
    using lt by (intro floor_unique) simp_all
  have ev: "even (- n - 1) \<longleftrightarrow> odd n" by simp
  show ?thesis
    unfolding round_half_even_def Let_def fl n_def[symmetric] ev
    using lt by (auto simp: algebra_simps)
qed

lemma round_half_even_ge: "of_int k \<le> x \<Longrightarrow> k \<le> round_half_even x"
  using round_half_even_mono[of "of_int k" x] by (simp add: round_half_even_of_int)

lemma round_half_even_le: "x \<le> of_int k \<Longrightarrow> round_half_even x \<le> k"
  using round_half_even_mono[of x "of_int k"] by (simp add: round_half_even_of_int)

lemma ulp_exponent_minus: "ulp_exponent (- q) = ulp_exponent q"
  by (simp add: ulp_exponent_def)

lemma nearest_0: "nearest 0 = 0"
  by (simp add: nearest_def)

lemma nearest_minus: "nearest (- q) = - nearest q"
  by (simp add: nearest_def ulp_exponent_minus round_half_even_minus)

lemma nearest_scaled:
  "q \<noteq> 0 \<Longrightarrow> nearest q / 2 powi ulp_exponent q
     = of_int (round_half_even (q / 2 powi ulp_exponent q))"
  using two_powi_pos[of "ulp_exponent q"] by (simp add: nearest_def)

lemma nearest_error_abs: "\<bar>nearest q - q\<bar> \<le> 2 powi ulp_exponent q / 2"
proof (cases "q = 0")
  case True
  then show ?thesis using two_powi_pos[of "ulp_exponent 0"] by (simp add: nearest_0)
next
  case False
  define u :: rat where "u = 2 powi ulp_exponent q"
  have upos: "0 < u" unfolding u_def by (rule two_powi_pos)
  define t where "t = q / u"
  have q: "q = t * u" using upos by (simp add: t_def)
  have n: "nearest q = of_int (round_half_even t) * u"
    using False by (simp add: nearest_def u_def t_def)
  have "\<bar>nearest q - q\<bar> = \<bar>of_int (round_half_even t) - t\<bar> * u"
    unfolding n using upos by (subst q) (simp add: abs_mult left_diff_distrib[symmetric])
  also have "\<dots> \<le> (1 / 2) * u"
    using round_half_even_error[of t] upos by (intro mult_right_mono) simp_all
  finally show ?thesis by (simp add: u_def)
qed

lemma nearest_nonneg: "0 \<le> q \<Longrightarrow> 0 \<le> nearest q"
proof (cases "q = 0")
  case True
  then show ?thesis by (simp add: nearest_0)
next
  case False
  assume "0 \<le> q"
  then have "of_int 0 \<le> q / 2 powi ulp_exponent q"
    using two_powi_pos[of "ulp_exponent q"] by simp
  then have "0 \<le> round_half_even (q / 2 powi ulp_exponent q)"
    by (rule round_half_even_ge)
  then show ?thesis using False two_powi_pos[of "ulp_exponent q"] by (simp add: nearest_def)
qed

lemma scale_mono: "a \<le> b \<Longrightarrow> (of_int a :: rat) * 2 powi e \<le> of_int b * 2 powi e"
  using two_powi_pos[of e] by (intro mult_right_mono) simp_all

lemma nearest_upper:
  assumes "0 < q"
  shows "nearest q \<le> 2 powi (ulp_exponent q + 53)"
proof -
  define e where "e = ulp_exponent q"
  have upos: "(0::rat) < 2 powi e" by (rule two_powi_pos)
  have "ilog2 q + 1 \<le> e + 53" using assms by (simp add: e_def ulp_exponent_def)
  then have "(2::rat) powi (ilog2 q + 1) \<le> 2 powi (e + 53)" by (rule two_powi_mono)
  with ilog2_bounds[OF assms] have "q \<le> 2 powi (e + 53)" by linarith
  also have "(2::rat) powi (e + 53) = 2 powi e * 2 ^ 53"
    by (simp add: power_int_add)
  finally have "q / 2 powi e \<le> of_int (2 ^ 53)" using upos by (simp add: field_simps)
  then have "round_half_even (q / 2 powi e) \<le> 2 ^ 53" by (rule round_half_even_le)
  from scale_mono[OF this, of e]
  have "of_int (round_half_even (q / 2 powi e)) * 2 powi e \<le> (2::rat) ^ 53 * 2 powi e"
    by simp
  then show ?thesis using assms by (simp add: nearest_def e_def power_int_add mult.commute)
qed

lemma nearest_lower:
  assumes "0 < q" "- 1022 \<le> ilog2 q"
  shows "2 powi ilog2 q \<le> nearest q"
proof -
  define e where "e = ulp_exponent q"
  have e: "e = ilog2 q - 52" using assms by (simp add: e_def ulp_exponent_def)
  have upos: "(0::rat) < 2 powi e" by (rule two_powi_pos)
  have p: "(2::rat) powi ilog2 q = 2 ^ 52 * 2 powi e"
  proof -
    have "ilog2 q = 52 + e" by (simp add: e)
    then have "(2::rat) powi ilog2 q = 2 powi (52 + e)" by simp
    then show ?thesis by (simp add: power_int_add)
  qed
  have "2 ^ 52 * 2 powi e \<le> q" using ilog2_bounds[OF assms(1)] p by simp
  then have "of_int (2 ^ 52) \<le> q / 2 powi e" using upos by (simp add: field_simps)
  then have "2 ^ 52 \<le> round_half_even (q / 2 powi e)" by (rule round_half_even_ge)
  from scale_mono[OF this, of e]
  have "(2::rat) ^ 52 * 2 powi e \<le> of_int (round_half_even (q / 2 powi e)) * 2 powi e"
    by simp
  then show ?thesis using assms(1) p by (simp add: nearest_def e_def)
qed

lemma nearest_mono_pos:
  assumes "0 < x" "x \<le> y"
  shows "nearest x \<le> nearest y"
proof -
  have ypos: "0 < y" using assms by simp
  have le: "ulp_exponent x \<le> ulp_exponent y"
    using ilog2_mono[OF assms] assms by (simp add: ulp_exponent_def)
  show ?thesis
  proof (cases "ulp_exponent x = ulp_exponent y")
    case True
    define e where "e = ulp_exponent y"
    have upos: "(0::rat) < 2 powi e" by (rule two_powi_pos)
    have "x / 2 powi e \<le> y / 2 powi e" using assms upos by (simp add: divide_right_mono)
    then have "round_half_even (x / 2 powi e) \<le> round_half_even (y / 2 powi e)"
      by (rule round_half_even_mono)
    from scale_mono[OF this, of e]
    have "(of_int (round_half_even (x / 2 powi e)) :: rat) * 2 powi e
        \<le> of_int (round_half_even (y / 2 powi e)) * 2 powi e" .
    then show ?thesis using assms ypos True by (simp add: nearest_def e_def)
  next
    case False
    with le have lt: "ulp_exponent x < ulp_exponent y" by simp
    then have big: "- 1022 \<le> ilog2 y" and ex: "ulp_exponent x + 53 \<le> ilog2 y"
      using assms ypos by (auto simp: ulp_exponent_def max_def split: if_splits)
    have "nearest x \<le> 2 powi (ulp_exponent x + 53)" by (rule nearest_upper[OF assms(1)])
    also have "\<dots> \<le> 2 powi ilog2 y" using ex by (rule two_powi_mono)
    also have "\<dots> \<le> nearest y" by (rule nearest_lower[OF ypos big])
    finally show ?thesis .
  qed
qed

lemma nearest_mono:
  assumes "x \<le> y"
  shows "nearest x \<le> nearest y"
proof -
  consider "0 < x" | "x \<le> 0" "0 \<le> y" | "y < 0" by linarith
  then show ?thesis
  proof cases
    case 1
    then show ?thesis using assms by (rule nearest_mono_pos)
  next
    case 2
    have "nearest x \<le> 0" using nearest_nonneg[of "- x"] 2 by (simp add: nearest_minus)
    also have "0 \<le> nearest y" using 2 by (intro nearest_nonneg)
    finally show ?thesis .
  next
    case 3
    then have "nearest (- y) \<le> nearest (- x)" using assms by (intro nearest_mono_pos) simp_all
    then show ?thesis by (simp add: nearest_minus)
  qed
qed

lemma nearest_rel_error:
  assumes "2 powi (- 1022) \<le> \<bar>q\<bar>"
  shows "\<bar>nearest q - q\<bar> \<le> \<bar>q\<bar> / 2 ^ 53"
proof -
  have qpos: "0 < \<bar>q\<bar>" using assms two_powi_pos[of "- 1022"] by linarith
  have "(2::rat) powi (- 1022) < 2 powi (ilog2 \<bar>q\<bar> + 1)"
    using assms ilog2_bounds[OF qpos] by linarith
  then have "- 1022 < ilog2 \<bar>q\<bar> + 1" by (rule two_powi_less_cancel)
  then have e: "ulp_exponent q = ilog2 \<bar>q\<bar> - 52" by (simp add: ulp_exponent_def)
  have "ilog2 \<bar>q\<bar> = ilog2 \<bar>q\<bar> - 52 + 52" by simp
  then have "(2::rat) powi ilog2 \<bar>q\<bar> = 2 powi (ilog2 \<bar>q\<bar> - 52 + 52)" by simp
  also have "\<dots> = 2 powi (ilog2 \<bar>q\<bar> - 52) * 2 ^ 52"
    by (subst power_int_add) simp_all
  finally have "2 powi ulp_exponent q * 2 ^ 52 \<le> \<bar>q\<bar>"
    using ilog2_bounds[OF qpos] e by simp
  then have "2 powi ulp_exponent q / 2 \<le> \<bar>q\<bar> / 2 ^ 53" by (simp add: field_simps)
  with nearest_error_abs[of q] show ?thesis by linarith
qed

lemma round_double_Fin: "\<bar>nearest q\<bar> < 2 ^ 1024 \<Longrightarrow> round_double q = Fin (nearest q)"
  by (simp add: round_double_def)

lemma nearest_fixed:
  assumes "ulp_exponent q \<le> e" "q = of_int m * 2 powi e"
  shows "nearest q = q"
proof (cases "q = 0")
  case True
  then show ?thesis by (simp add: nearest_0)
next
  case False
  define u where "u = ulp_exponent q"
  define k where "k = nat (e - u)"
  have e: "e = u + int k" using assms(1) by (simp add: k_def u_def)
  have "(2::rat) powi e = 2 powi u * 2 ^ k"
    unfolding e by (subst power_int_add) simp_all
  then have "q / 2 powi u = of_int (m * 2 ^ k)"
    using assms(2) two_powi_pos[of u] by simp
  then have "round_half_even (q / 2 powi u) = m * 2 ^ k"
    by (simp only: round_half_even_of_int)
  then have "nearest q = of_int (m * 2 ^ k) * 2 powi u"
    using False by (simp add: nearest_def u_def)
  also have "\<dots> = of_int m * (2 powi u * 2 ^ k)" by simp
  also have "2 powi u * 2 ^ k = (2::rat) powi e"
    unfolding e by (subst power_int_add) simp_all
  finally show ?thesis using assms(2) by simp
qed

lemma ilog2_less: "0 < q \<Longrightarrow> q < 2 powi e \<Longrightarrow> ilog2 q < e"
  using ilog2_bounds[of q] two_powi_less_cancel[of "ilog2 q" e] by linarith

lemma ilog2_two_powi: "ilog2 (2 powi e) = e"
proof (rule ilog2_unique)
  show "(2::rat) powi e \<le> 2 powi e" by simp
  have "(2::rat) powi (e + 1) = 2 powi e * 2" by (subst power_int_add) simp_all
  then show "(2::rat) powi e < 2 powi (e + 1)" using two_powi_pos[of e] by simp
qed

lemma nearest_two_powi:
  assumes "- 1022 \<le> e"
  shows "nearest (2 powi e) = 2 powi e"
proof (rule nearest_fixed)
  have "\<bar>(2::rat) powi e\<bar> = 2 powi e" using two_powi_pos[of e] by simp
  then show "ulp_exponent (2 powi e) \<le> e - 52"
    using assms by (simp add: ulp_exponent_def ilog2_two_powi)
  have "e = e - 52 + 52" by simp
  then have "(2::rat) powi e = 2 powi (e - 52 + 52)" by simp
  also have "\<dots> = 2 powi (e - 52) * 2 ^ 52" by (subst power_int_add) simp_all
  finally show "(2::rat) powi e = of_int (2 ^ 52) * 2 powi (e - 52)" by simp
qed

lemma nearest_abs_le:
  assumes "\<bar>q\<bar> \<le> 2 powi e" "- 1022 \<le> e"
  shows "\<bar>nearest q\<bar> \<le> 2 powi e"
proof -
  have "nearest q \<le> nearest (2 powi e)" using assms(1) by (intro nearest_mono) simp
  moreover have "nearest (- (2 powi e)) \<le> nearest q" using assms(1) by (intro nearest_mono) simp
  ultimately show ?thesis by (simp add: nearest_minus nearest_two_powi[OF assms(2)])
qed

lemma nearest_1: "nearest 1 = 1"
  using nearest_two_powi[of 0] by simp

lemma unit_error:
  assumes "0 \<le> q" "q \<le> 1"
  shows "\<bar>nearest q - q\<bar> \<le> 1 / 2 ^ 54"
proof -
  consider "q = 0" | "q = 1" | "0 < q" "q < 1" using assms by linarith
  then show ?thesis
  proof cases
    case 1
    then show ?thesis by (simp add: nearest_0)
  next
    case 2
    then show ?thesis by (simp add: nearest_1)
  next
    case 3
    have "ilog2 q < 0" using 3 by (intro ilog2_less) simp_all
    then have "ulp_exponent q \<le> - 53" using 3 by (simp add: ulp_exponent_def)
    then have "(2::rat) powi ulp_exponent q \<le> 2 powi (- 53)" by (rule two_powi_mono)
    also have "(2::rat) powi (- 53) = 1 / 2 ^ 53" by (simp add: power_int_minus_divide)
    finally have "2 powi ulp_exponent q / 2 \<le> (1::rat) / 2 ^ 54" by simp
    with nearest_error_abs[of q] show ?thesis by linarith
  qed
qed

lemma unit_round_double:
  assumes "0 \<le> q" "q \<le> 1"
  shows "round_double q = Fin (nearest q)"
proof (rule round_double_Fin)
  have "\<bar>nearest q\<bar> \<le> 2 powi 0" using assms by (intro nearest_abs_le) simp_all
  also have "\<dots> < (2::rat) ^ 1024" by simp
  finally show "\<bar>nearest q\<bar> < 2 ^ 1024" .
qed

lemma rel_error:
  assumes "q = 0 \<or> 1 / 2 ^ 10 \<le> \<bar>q\<bar>"
  shows "\<bar>nearest q - q\<bar> \<le> \<bar>q\<bar> / 2 ^ 53"
proof (cases "q = 0")
  case True
  then show ?thesis by (simp add: nearest_0)
next
  case False
  have "(2::rat) powi (- 1022) \<le> 2 powi (- 10)" by (rule two_powi_mono) simp
  also have "(2::rat) powi (- 10) = 1 / 2 ^ 10" by (simp add: power_int_minus_divide)
  also have "\<dots> \<le> \<bar>q\<bar>" using assms False by simp
  finally show ?thesis by (rule nearest_rel_error)
qed

lemma nearest_within:
  assumes "0 \<le> q" "q = 0 \<or> 1 / 2 ^ 10 \<le> q"
  shows "q - q / 2 ^ 53 \<le> nearest q" and "nearest q \<le> q + q / 2 ^ 53"
proof -
  have "\<bar>nearest q - q\<bar> \<le> \<bar>q\<bar> / 2 ^ 53" using assms by (intro rel_error) auto
  then have a: "\<bar>nearest q - q\<bar> \<le> q / 2 ^ 53" using assms(1) by simp
  define e where "e = q / 2 ^ 53"
  have "\<bar>nearest q - q\<bar> \<le> e" using a by (simp only: e_def)
  then have "q - e \<le> nearest q" "nearest q \<le> q + e" by linarith+
  then show "q - q / 2 ^ 53 \<le> nearest q" and "nearest q \<le> q + q / 2 ^ 53"
    by (simp_all only: e_def)
qed

lemma round_double_bounded:
  assumes "\<bar>q\<bar> \<le> 2 ^ 1000"
  shows "round_double q = Fin (nearest q)"
proof (rule round_double_Fin)
  have "\<bar>q\<bar> \<le> 2 powi 1000" using assms by simp
  then have "\<bar>nearest q\<bar> \<le> 2 powi 1000" by (rule nearest_abs_le) simp
  also have "\<dots> < (2::rat) ^ 1024" by simp
  finally show "\<bar>nearest q\<bar> < 2 ^ 1024" .
qed

section \<open>Properties of the renderers\<close>

lemma float_literal_unit: "0 \<le> t \<Longrightarrow> t \<le> 1 \<Longrightarrow> float_literal t = Fin (nearest t)"
  by (simp add: float_literal_def unit_round_double)

lemma truediv_cases:
  "truediv a b = Inr pct \<Longrightarrow> b \<noteq> 0 \<and> pct = Fin (nearest (of_int a / of_int b))"
  by (auto simp: truediv_def round_double_def Let_def split: if_splits pyfloat.splits)

lemma truediv_unit:
  assumes "0 \<le> a" "a \<le> b" "0 < b"
  shows "truediv a b = Inr (Fin (nearest (of_int a / of_int b)))"
proof -
  have "(0::rat) \<le> of_int a / of_int b" "(of_int a :: rat) / of_int b \<le> 1"
    using assms by simp_all
  from unit_round_double[OF this] show ?thesis using assms by (simp add: truediv_def)
qed

lemma above_threshold:
  assumes "0 \<le> t" "r \<le> 1" "t + 1 / 2 ^ 53 < r"
  shows "nearest t < nearest r"
proof -
  have eps: "(0::rat) < 1 / 2 ^ 53" by simp
  have t1: "t \<le> 1" using assms eps by linarith
  have r0: "0 \<le> r" using assms eps by linarith
  define e :: rat where "e = 1 / 2 ^ 54"
  have e2: "(1::rat) / 2 ^ 53 = e + e" by (simp add: e_def)
  have "\<bar>nearest t - t\<bar> \<le> e" unfolding e_def using assms(1) t1 by (rule unit_error)
  moreover have "\<bar>nearest r - r\<bar> \<le> e" unfolding e_def using r0 assms(2) by (rule unit_error)
  ultimately show ?thesis using assms(3) unfolding e2 by linarith
qed

lemma threshold_exact:
  assumes b: "0 \<le> b" "b \<le> m" "0 < m" "m \<le> 2 ^ 48"
    and t: "0 \<le> p" "p \<le> d" "0 < d" "d \<le> 25"
  shows "fless (float_literal (of_int p / of_int d)) (Fin (nearest (of_int b / of_int m)))
         \<longleftrightarrow> (of_int p / of_int d :: rat) < of_int b / of_int m"
proof -
  define tt :: rat where "tt = of_int p / of_int d"
  define r :: rat where "r = of_int b / of_int m"
  have t01: "0 \<le> tt" "tt \<le> 1" using t by (simp_all add: tt_def)
  have r01: "0 \<le> r" "r \<le> 1" using b by (simp_all add: r_def)
  have lit: "float_literal tt = Fin (nearest tt)" using t01 by (rule float_literal_unit)
  have "nearest tt < nearest r \<longleftrightarrow> tt < r"
  proof
    assume "nearest tt < nearest r"
    then have "\<not> r \<le> tt" using nearest_mono[of r tt] by linarith
    then show "tt < r" by simp
  next
    assume "tt < r"
    then have "of_int p * of_int m < (of_int b :: rat) * of_int d"
      using b t by (simp add: tt_def r_def field_simps)
    then have "(of_int (p * m) :: rat) < of_int (b * d)" by simp
    then have "p * m < b * d" by (simp only: of_int_less_iff)
    then have "p * m + 1 \<le> b * d" by simp
    then have "(of_int (p * m + 1) :: rat) \<le> of_int (b * d)" by (simp only: of_int_le_iff)
    then have num: "(1::rat) \<le> of_int b * of_int d - of_int p * of_int m" by simp
    have dm: "d * m \<le> 25 * 2 ^ 48"
      using mult_mono[of d 25 m "2 ^ 48"] b t by simp
    then have "(of_int (d * m) :: rat) \<le> of_int (25 * 2 ^ 48)" by (simp only: of_int_le_iff)
    then have den: "(of_int d :: rat) * of_int m \<le> 25 * 2 ^ 48" by simp
    have denpos: "(0::rat) < of_int d * of_int m" using b t by simp
    have "r - tt = (of_int b * of_int d - of_int p * of_int m) / (of_int d * of_int m)"
      using b t by (simp add: tt_def r_def field_simps)
    also have "\<dots> \<ge> 1 / (of_int d * of_int m)"
      using num denpos by (simp add: divide_right_mono)
    finally have "1 / (of_int d * of_int m) \<le> r - tt" .
    moreover have "(1::rat) / (25 * 2 ^ 48) \<le> 1 / (of_int d * of_int m)"
      using den denpos by (intro divide_left_mono) simp_all
    ultimately have "tt + 1 / 2 ^ 53 < r" by simp
    with t01 r01 show "nearest tt < nearest r" by (intro above_threshold)
  qed
  then show ?thesis by (simp add: lit tt_def[symmetric] r_def[symmetric])
qed

lemma level_of_exact:
  assumes "0 \<le> b" "b \<le> m" "0 < m" "m \<le> 2 ^ 48"
  shows "level_of (Fin (nearest (of_int b / of_int m))) = tier (of_int b / of_int m)"
proof -
  note T = threshold_exact[OF assms]
  have "fless (float_literal (7 / 10)) (Fin (nearest (of_int b / of_int m)))
          \<longleftrightarrow> (7 / 10 :: rat) < of_int b / of_int m"
    using T[of 7 10] by simp
  moreover have "fless (float_literal (4 / 10)) (Fin (nearest (of_int b / of_int m)))
          \<longleftrightarrow> (4 / 10 :: rat) < of_int b / of_int m"
    using T[of 4 10] by simp
  moreover have "fless (float_literal (2 / 10)) (Fin (nearest (of_int b / of_int m)))
          \<longleftrightarrow> (2 / 10 :: rat) < of_int b / of_int m"
    using T[of 2 10] by simp
  moreover have "fless (float_literal (8 / 100)) (Fin (nearest (of_int b / of_int m)))
          \<longleftrightarrow> (8 / 100 :: rat) < of_int b / of_int m"
    using T[of 2 25] by simp
  ultimately show ?thesis by (simp only: level_of_def tier_def)
qed

lemma skill_level_exact:
  assumes "0 \<le> b" "b \<le> m" "0 < m" "m \<le> 2 ^ 48"
  shows "skill_level b m = Inr (tier (of_int b / of_int m))"
  using truediv_unit[OF assms(1,2,3)] level_of_exact[OF assms] by (simp add: skill_level_def)

lemma nearest_07: "nearest (7 / 10) = 3152519739159347 / 4503599627370496"
  by code_simp

lemma nearest_04: "nearest (4 / 10) = 3602879701896397 / 9007199254740992"
  by code_simp

lemma nearest_02: "nearest (2 / 10) = 3602879701896397 / 18014398509481984"
  by code_simp

lemma nearest_008: "nearest (8 / 100) = 5764607523034235 / 72057594037927936"
  by code_simp

lemma nearest_12: "nearest (12 / 10) = 5404319552844595 / 4503599627370496"
  by code_simp

lemma nearest_08: "nearest (8 / 10) = 3602879701896397 / 4503599627370496"
  by code_simp

lemma nearest_06: "nearest (6 / 10) = 5404319552844595 / 9007199254740992"
  by code_simp

lemma nearest_14: "nearest (14 / 10) = 3152519739159347 / 2251799813685248"
  by code_simp

lemma literal_07: "float_literal (7 / 10) = Fin (3152519739159347 / 4503599627370496)"
proof -
  have "float_literal (7 / 10) = Fin (nearest (7 / 10))" by (rule float_literal_unit) simp_all
  then show ?thesis by (simp only: nearest_07)
qed

lemma literal_04: "float_literal (4 / 10) = Fin (3602879701896397 / 9007199254740992)"
proof -
  have "float_literal (4 / 10) = Fin (nearest (4 / 10))" by (rule float_literal_unit) simp_all
  then show ?thesis by (simp only: nearest_04)
qed

lemma literal_02: "float_literal (2 / 10) = Fin (3602879701896397 / 18014398509481984)"
proof -
  have "float_literal (2 / 10) = Fin (nearest (2 / 10))" by (rule float_literal_unit) simp_all
  then show ?thesis by (simp only: nearest_02)
qed

lemma literal_008: "float_literal (8 / 100) = Fin (5764607523034235 / 72057594037927936)"
proof -
  have "float_literal (8 / 100) = Fin (nearest (8 / 100))" by (rule float_literal_unit) simp_all
  then show ?thesis by (simp only: nearest_008)
qed

lemma literal_08: "float_literal (8 / 10) = Fin (3602879701896397 / 4503599627370496)"
proof -
  have "float_literal (8 / 10) = Fin (nearest (8 / 10))" by (rule float_literal_unit) simp_all
  then show ?thesis by (simp only: nearest_08)
qed

lemma literal_06: "float_literal (6 / 10) = Fin (5404319552844595 / 9007199254740992)"
proof -
  have "float_literal (6 / 10) = Fin (nearest (6 / 10))" by (rule float_literal_unit) simp_all
  then show ?thesis by (simp only: nearest_06)
qed

lemma literal_levels:
  "level_of (float_literal (7 / 10)) = ''Expert''"
  "level_of (float_literal (4 / 10)) = ''Adept''"
  "level_of (float_literal (2 / 10)) = ''Skilled''"
  "level_of (float_literal (8 / 100)) = ''Novice''"
  unfolding level_of_def literal_07 literal_04 literal_02 literal_008 by simp_all

lemma skill_level_on_cut:
  assumes "m \<noteq> 0" "(of_int b :: rat) / of_int m = t" "0 \<le> t" "t \<le> 1"
  shows "skill_level b m = Inr (level_of (float_literal t))"
  using assms by (simp add: skill_level_def truediv_def unit_round_double float_literal_def)

lemma ratio_eq: "m \<noteq> 0 \<Longrightarrow> d * b = p * m \<Longrightarrow> d \<noteq> 0 \<Longrightarrow>
    (of_int b :: rat) / of_int m = of_int p / of_int d"
proof -
  assume a: "m \<noteq> 0" "d * b = p * m" "d \<noteq> 0"
  have "(of_int d :: rat) * of_int b = of_int p * of_int m"
    using a(2) by (metis of_int_mult)
  then show ?thesis using a by (simp add: field_simps)
qed

lemma exact_cut_levels:
  assumes "m \<noteq> 0"
  shows "10 * b = 7 * m \<Longrightarrow> skill_level b m = Inr ''Expert''"
    and "10 * b = 4 * m \<Longrightarrow> skill_level b m = Inr ''Adept''"
    and "10 * b = 2 * m \<Longrightarrow> skill_level b m = Inr ''Skilled''"
    and "100 * b = 8 * m \<Longrightarrow> skill_level b m = Inr ''Novice''"
proof -
  have r: "(of_int b :: rat) / of_int m = t \<Longrightarrow> 0 \<le> t \<Longrightarrow> t \<le> 1 \<Longrightarrow>
      level_of (float_literal t) = l \<Longrightarrow> skill_level b m = Inr l" for t l
    using skill_level_on_cut[OF assms] by simp
  show "10 * b = 7 * m \<Longrightarrow> skill_level b m = Inr ''Expert''"
    using ratio_eq[OF assms, of 10 b 7] by (intro r[OF _ _ _ literal_levels(1)]) simp_all
  show "10 * b = 4 * m \<Longrightarrow> skill_level b m = Inr ''Adept''"
    using ratio_eq[OF assms, of 10 b 4] by (intro r[OF _ _ _ literal_levels(2)]) simp_all
  show "10 * b = 2 * m \<Longrightarrow> skill_level b m = Inr ''Skilled''"
    using ratio_eq[OF assms, of 10 b 2] by (intro r[OF _ _ _ literal_levels(3)]) simp_all
  show "100 * b = 8 * m \<Longrightarrow> skill_level b m = Inr ''Novice''"
    using ratio_eq[OF assms, of 100 b 8] by (intro r[OF _ _ _ literal_levels(4)]) simp_all
qed

lemma fless_literal_mono:
  assumes "0 \<le> t" "t \<le> 1" "fless (float_literal t) (Fin (nearest r))"
  shows "t < r"
proof -
  have "nearest t < nearest r" using assms by (simp add: float_literal_unit)
  then have "\<not> r \<le> t" using nearest_mono[of r t] by linarith
  then show ?thesis by simp
qed

lemma master_needs_more:
  assumes "skill_level b m = Inr ''Master''"
  shows "(7 / 10 :: rat) < of_int b / of_int m"
proof -
  from assms obtain pct where p: "truediv b m = Inr pct" and l: "level_of pct = ''Master''"
    by (auto simp: skill_level_def split: sum.splits)
  from truediv_cases[OF p] have pct: "pct = Fin (nearest (of_int b / of_int m))" by simp
  from l have "fless (float_literal (7 / 10)) pct"
    by (simp add: level_of_def split: if_splits)
  then show ?thesis unfolding pct by (intro fless_literal_mono) simp_all
qed

lemma low_is_novice:
  assumes "skill_level b m = Inr l" "(of_int b / of_int m :: rat) \<le> 8 / 100"
  shows "l = ''Novice''"
proof -
  from assms obtain pct where p: "truediv b m = Inr pct" and l: "l = level_of pct"
    by (auto simp: skill_level_def split: sum.splits)
  from truediv_cases[OF p] have pct: "pct = Fin (nearest (of_int b / of_int m))" by simp
  have no: "\<not> fless (float_literal t) pct" if "0 \<le> t" "t \<le> 1" "8 / 100 \<le> t" for t
    using fless_literal_mono[OF that(1,2), of "of_int b / of_int m"] assms(2) that(3)
    unfolding pct by auto
  show ?thesis unfolding l level_of_def
    using no[of "7 / 10"] no[of "4 / 10"] no[of "2 / 10"] no[of "8 / 100"] by simp
qed

lemma weather_band_names:
  "fst (weather_band n) = ''Cloudy'' \<longleftrightarrow> n = 0"
  "fst (weather_band n) = ''Partly Cloudy'' \<longleftrightarrow> n \<noteq> 0 \<and> n \<le> 2"
  "fst (weather_band n) = ''Sunny'' \<longleftrightarrow> 3 \<le> n \<and> n \<le> 5"
  "fst (weather_band n) = ''Hot'' \<longleftrightarrow> 6 \<le> n \<and> n \<le> 10"
  "fst (weather_band n) = ''Thunderstorm'' \<longleftrightarrow> 10 < n"
  by (auto simp: weather_band_def)

lemma nearest_just_above_008:
  "nearest (80000000000000001 / 1000000000000000000) = 5764607523034235 / 72057594037927936"
  by code_simp

text \<open>
  Claim C3, as stated, fails on the code where the quotient is rounded across a cut
  point: \<^verbatim>\<open>(8 * 10**16 + 1) / 10**18\<close> is the double \<^verbatim>\<open>0.08\<close> itself, so \<^verbatim>\<open>pct > 0.08\<close>
  is false and the language is a Novice, with a proportion above \<open>0.08\<close>.
\<close>

theorem rounding_blurs_lowest_tier:
  "skill_level 80000000000000001 1000000000000000000 = Inr ''Novice'' \<and>
   (8 / 100 :: rat) < of_int 80000000000000001 / of_int 1000000000000000000"
proof -
  have "truediv 80000000000000001 1000000000000000000
      = Inr (Fin (nearest (of_int 80000000000000001 / of_int 1000000000000000000)))"
    by (rule truediv_unit) simp_all
  then have "truediv 80000000000000001 1000000000000000000 = Inr (Fin (5764607523034235 / 72057594037927936))"
    by (simp only: of_int_numeral nearest_just_above_008)
  then have "skill_level 80000000000000001 1000000000000000000 = Inr ''Novice''"
    unfolding skill_level_def level_of_def literal_07 literal_04 literal_02 literal_008
    by simp
  then show ?thesis by simp
qed

text \<open>
  Claim C3, amended. The cut points are strict: a proportion of exactly \<open>0.7\<close> is
  an Expert, at any size; a Master has a proportion above \<open>0.7\<close>; a proportion of at
  most \<open>0.08\<close> is a Novice whenever the level is computed. For a byte count between
  \<open>0\<close> and a maximum of at most \<open>2 ^ 48\<close> the level is the tier of the exact proportion,
  so there each tier, the lowest included, is assigned exactly between its cut
  points. In the weather card a count of \<open>0\<close>, \<open>1\<close> to \<open>2\<close>, \<open>3\<close> to \<open>5\<close>, \<open>6\<close> to
  \<open>10\<close> and above \<open>10\<close> gives the five bands, \<open>2\<close>, \<open>5\<close> and \<open>10\<close> in the lower one.
\<close>

theorem tier_thresholds:
  "(\<forall>b m. m \<noteq> 0 \<and> 10 * b = 7 * m \<longrightarrow> skill_level b m = Inr ''Expert'') \<and>
   (\<forall>b m. skill_level b m = Inr ''Master'' \<longrightarrow> (7 / 10 :: rat) < of_int b / of_int m) \<and>
   (\<forall>b m l. skill_level b m = Inr l \<and> (of_int b / of_int m :: rat) \<le> 8 / 100
      \<longrightarrow> l = ''Novice'') \<and>
   (\<forall>b m. 0 \<le> b \<and> b \<le> m \<and> 0 < m \<and> m \<le> 2 ^ 48
      \<longrightarrow> skill_level b m = Inr (tier (of_int b / of_int m))) \<and>
   (\<forall>n. 0 \<le> n \<longrightarrow>
      (fst (weather_band n) = ''Cloudy'' \<longleftrightarrow> n = 0) \<and>
      (fst (weather_band n) = ''Partly Cloudy'' \<longleftrightarrow> 1 \<le> n \<and> n \<le> 2) \<and>
      (fst (weather_band n) = ''Sunny'' \<longleftrightarrow> 3 \<le> n \<and> n \<le> 5) \<and>
      (fst (weather_band n) = ''Hot'' \<longleftrightarrow> 6 \<le> n \<and> n \<le> 10) \<and>
      (fst (weather_band n) = ''Thunderstorm'' \<longleftrightarrow> 10 < n))"
proof (intro conjI allI impI)
  fix b m :: int
  assume "m \<noteq> 0 \<and> 10 * b = 7 * m"
  then show "skill_level b m = Inr ''Expert''" using exact_cut_levels(1) by blast
next
  fix b m :: int
  assume "skill_level b m = Inr ''Master''"
  then show "(7 / 10 :: rat) < of_int b / of_int m" by (rule master_needs_more)
next
  fix b m :: int and l
  assume "skill_level b m = Inr l \<and> (of_int b / of_int m :: rat) \<le> 8 / 100"
  then show "l = ''Novice''" using low_is_novice by blast
next
  fix b m :: int
  assume "0 \<le> b \<and> b \<le> m \<and> 0 < m \<and> m \<le> 2 ^ 48"
  then show "skill_level b m = Inr (tier (of_int b / of_int m))"
    using skill_level_exact by blast
qed (simp_all add: weather_band_names, linarith)

theorem tier_thresholds_witness:
  "skill_level 70 100 = Inr ''Expert'' \<and> skill_level 71 100 = Inr ''Master'' \<and>
   skill_level 40 100 = Inr ''Adept'' \<and> skill_level 20 100 = Inr ''Skilled'' \<and>
   skill_level 8 100 = Inr ''Novice'' \<and> skill_level 9 100 = Inr ''Skilled'' \<and>
   fst (weather_band 0) = ''Cloudy'' \<and> fst (weather_band 1) = ''Partly Cloudy'' \<and>
   fst (weather_band 2) = ''Partly Cloudy'' \<and> fst (weather_band 3) = ''Sunny'' \<and>
   fst (weather_band 5) = ''Sunny'' \<and> fst (weather_band 6) = ''Hot'' \<and>
   fst (weather_band 10) = ''Hot'' \<and> fst (weather_band 11) = ''Thunderstorm''"
proof -
  note T = tier_thresholds
  have sk: "skill_level b 100 = Inr (tier (of_int b / of_int 100))"
    if "0 \<le> b" "b \<le> 100" for b
    using T that by simp
  have "skill_level 70 100 = Inr ''Expert''" using T by simp
  moreover have "skill_level 71 100 = Inr ''Master''" "skill_level 40 100 = Inr ''Adept''"
    "skill_level 20 100 = Inr ''Skilled''" "skill_level 8 100 = Inr ''Novice''"
    "skill_level 9 100 = Inr ''Skilled''"
    using sk[of 71] sk[of 40] sk[of 20] sk[of 8] sk[of 9] by (simp_all add: tier_def)
  moreover have "fst (weather_band 0) = ''Cloudy''" "fst (weather_band 1) = ''Partly Cloudy''"
   "fst (weather_band 2) = ''Partly Cloudy''" "fst (weather_band 3) = ''Sunny''"
   "fst (weather_band 5) = ''Sunny''" "fst (weather_band 6) = ''Hot''"
   "fst (weather_band 10) = ''Hot''" "fst (weather_band 11) = ''Thunderstorm''"
    using T by simp_all
  ultimately show ?thesis by simp
qed

lemma up_arith:
  fixes s7 s30 a7 a30 P :: rat
  assumes "0 \<le> s30" "s30 \<le> 2 ^ 40"
    and "7 * s30 + 1 \<le> 25 * s7"
    and "a30 \<le> s30 / 30 + s30 / 30 / 2 ^ 53"
    and "P \<le> a30 * (5404319552844595 / 4503599627370496) + a30 * (5404319552844595 / 4503599627370496) / 2 ^ 53"
    and "s7 / 7 - s7 / 7 / 2 ^ 53 \<le> a7"
  shows "P < a7"
  using assms by simp

lemma not_up_arith:
  fixes s7 s30 a7 a30 P :: rat
  assumes "0 \<le> s7" "s30 \<le> 2 ^ 40"
    and "25 * s7 + 1 \<le> 7 * s30"
    and "s30 / 30 - s30 / 30 / 2 ^ 53 \<le> a30"
    and "a30 * (5404319552844595 / 4503599627370496) - a30 * (5404319552844595 / 4503599627370496) / 2 ^ 53 \<le> P"
    and "a7 \<le> s7 / 7 + s7 / 7 / 2 ^ 53"
  shows "a7 < P"
  using assms by simp

lemma down_arith:
  fixes s7 s30 a7 a30 P :: rat
  assumes "0 \<le> s7" "s30 \<le> 2 ^ 40"
    and "75 * s7 + 1 \<le> 14 * s30"
    and "s30 / 30 - s30 / 30 / 2 ^ 53 \<le> a30"
    and "a30 * (3602879701896397 / 4503599627370496) - a30 * (3602879701896397 / 4503599627370496) / 2 ^ 53 \<le> P"
    and "a7 \<le> s7 / 7 + s7 / 7 / 2 ^ 53"
  shows "a7 < P"
  using assms by simp

lemma not_down_arith:
  fixes s7 s30 a7 a30 P :: rat
  assumes "0 \<le> s30" "s30 \<le> 2 ^ 40"
    and "14 * s30 + 1 \<le> 75 * s7"
    and "a30 \<le> s30 / 30 + s30 / 30 / 2 ^ 53"
    and "P \<le> a30 * (3602879701896397 / 4503599627370496) + a30 * (3602879701896397 / 4503599627370496) / 2 ^ 53"
    and "s7 / 7 - s7 / 7 / 2 ^ 53 \<le> a7"
  shows "P < a7"
  using assms by simp

lemma literal_12: "float_literal (12 / 10) = Fin (5404319552844595 / 4503599627370496)"
proof -
  have "round_double (12 / 10) = Fin (nearest (12 / 10))" by (rule round_double_bounded) simp
  then show ?thesis by (simp only: float_literal_def nearest_12)
qed

lemma truediv_small:
  assumes "0 \<le> a" "a \<le> 2 ^ 40" "1 \<le> b"
  shows "truediv a b = Inr (Fin (nearest (of_int a / of_int b)))"
proof -
  have "(of_int a :: rat) / of_int b \<le> of_int a / 1"
    using assms by (intro divide_left_mono) simp_all
  also have "\<dots> \<le> 2 ^ 40" using assms(2) by (simp add: of_int_le_numeral_power_cancel_iff)
  also have "\<dots> \<le> (2::rat) ^ 1000" by simp
  finally have "\<bar>(of_int a :: rat) / of_int b\<bar> \<le> 2 ^ 1000" using assms by simp
  from round_double_bounded[OF this] show ?thesis using assms by (simp add: truediv_def)
qed

text \<open>A quotient \<open>s / n\<close> of small integers, rounded: within one part in \<open>2 ^ 53\<close>.\<close>

lemma average_within:
  assumes "0 \<le> s" "n = 7 \<or> n = 30"
  defines "A \<equiv> (of_int s :: rat) / of_int n"
  shows "A - A / 2 ^ 53 \<le> nearest A" "nearest A \<le> A + A / 2 ^ 53" "0 \<le> A"
    "s = 0 \<or> 1 / 30 \<le> A"
proof -
  show A0: "0 \<le> A" using assms by (auto simp: A_def)
  show A1: "s = 0 \<or> 1 / 30 \<le> A"
  proof (cases "s = 0")
    case False
    then have "1 \<le> s" using assms(1) by simp
    then have "(1::rat) \<le> of_int s" by simp
    then have "1 / 30 \<le> A" using assms(2) by (auto simp: A_def field_simps)
    then show ?thesis ..
  qed simp
  have "A = 0 \<or> 1 / 2 ^ 10 \<le> A"
    using A1 by (auto simp: A_def)
  from nearest_within[OF A0 this]
  show "A - A / 2 ^ 53 \<le> nearest A" "nearest A \<le> A + A / 2 ^ 53" .
qed

text \<open>The product \<^verbatim>\<open>avg_30 * c\<close> for a constant \<open>c\<close> between \<open>1 / 2\<close> and \<open>2\<close>.\<close>

lemma product_within:
  assumes s: "0 \<le> s" "s \<le> 2 ^ 40" and c: "1 / 2 \<le> c" "c \<le> 2"
  defines "a30 \<equiv> nearest (of_int s / 30)"
  shows "fmul (Fin a30) (Fin c) = Fin (nearest (a30 * c))"
    and "a30 * c - a30 * c / 2 ^ 53 \<le> nearest (a30 * c)"
    and "nearest (a30 * c) \<le> a30 * c + a30 * c / 2 ^ 53"
proof -
  define A :: rat where "A = of_int s / of_int 30"
  have a30: "a30 = nearest A" by (simp add: a30_def A_def)
  note W = average_within[of s 30, folded A_def]
  have lo: "A - A / 2 ^ 53 \<le> a30" and hi: "a30 \<le> A + A / 2 ^ 53" and A0: "0 \<le> A"
    using W s by (simp_all add: a30)
  have Ahi: "A \<le> 2 ^ 40"
  proof -
    have "(of_int s :: rat) \<le> 2 ^ 40" using s(2) by (simp add: of_int_le_numeral_power_cancel_iff)
    then show ?thesis using s(1) by (simp add: A_def)
  qed
  have a0: "0 \<le> a30" using A0 by (simp add: a30 nearest_nonneg)
  have x0: "0 \<le> a30 * c" using a0 c by simp
  have "a30 \<le> 2 ^ 41" using hi Ahi A0 by simp
  then have "a30 * c \<le> 2 ^ 41 * 2" using c a0 by (intro mult_mono) simp_all
  also have "\<dots> \<le> (2::rat) ^ 1000" by simp
  finally have "\<bar>a30 * c\<bar> \<le> 2 ^ 1000" using x0 by simp
  from round_double_bounded[OF this]
  show "fmul (Fin a30) (Fin c) = Fin (nearest (a30 * c))" by simp
  have "a30 * c = 0 \<or> 1 / 2 ^ 10 \<le> a30 * c"
  proof (cases "s = 0")
    case True
    then show ?thesis by (simp add: a30_def nearest_0)
  next
    case False
    then have "1 / 30 \<le> A" using W(4) s by simp
    then have "1 / 60 \<le> a30" using lo by simp
    then have "1 / 60 * (1 / 2) \<le> a30 * c" using c by (intro mult_mono) simp_all
    then show ?thesis by simp
  qed
  from nearest_within[OF x0 this]
  show "a30 * c - a30 * c / 2 ^ 53 \<le> nearest (a30 * c)"
    and "nearest (a30 * c) \<le> a30 * c + a30 * c / 2 ^ 53" .
qed

lemma trend_of_30:
  assumes "length history = 30"
  shows "trend_of history =
    (case truediv (sum_list (take 7 history)) 7 of
       Inl e \<Rightarrow> Inl e
     | Inr avg_7 \<Rightarrow>
         (case truediv (sum_list history) 30 of
            Inl e \<Rightarrow> Inl e
          | Inr avg_30 \<Rightarrow> Inr (classify_trend avg_7 avg_30)))"
  using assms by (simp add: trend_of_def cong: sum.case_cong)

lemma of_int_step: "a < b \<Longrightarrow> (of_int a :: rat) + 1 \<le> of_int b"
proof -
  assume "a < b"
  then have "a + 1 \<le> b" by simp
  then have "(of_int (a + 1) :: rat) \<le> of_int b" by (simp only: of_int_le_iff)
  then show ?thesis by simp
qed

lemma of_int_bound: "a \<le> 2 ^ 40 \<Longrightarrow> (of_int a :: rat) \<le> 2 ^ 40"
  by (simp add: of_int_le_numeral_power_cancel_iff)

lemma trend_by_sums:
  assumes s7: "0 \<le> s7" "s7 \<le> 2 ^ 40" and s30: "0 \<le> s30" "s30 \<le> 2 ^ 40"
  defines "a7 \<equiv> nearest (of_int s7 / 7)" and "a30 \<equiv> nearest (of_int s30 / 30)"
  shows "truediv s7 7 = Inr (Fin a7)" "truediv s30 30 = Inr (Fin a30)"
    and "classify_trend (Fin a7) (Fin a30) =
           (if nearest (a30 * (5404319552844595 / 4503599627370496)) < a7 then Trending_up
            else if a7 < nearest (a30 * (3602879701896397 / 4503599627370496)) then Cooling_down else Steady)"
    and "7 * s30 < 25 * s7 \<Longrightarrow> nearest (a30 * (5404319552844595 / 4503599627370496)) < a7"
    and "25 * s7 < 7 * s30 \<Longrightarrow> a7 < nearest (a30 * (5404319552844595 / 4503599627370496))"
    and "75 * s7 < 14 * s30 \<Longrightarrow> a7 < nearest (a30 * (3602879701896397 / 4503599627370496))"
    and "14 * s30 < 75 * s7 \<Longrightarrow> nearest (a30 * (3602879701896397 / 4503599627370496)) < a7"
proof -
  show "truediv s7 7 = Inr (Fin a7)" unfolding a7_def
    using truediv_small[OF s7, of 7] by simp
  show "truediv s30 30 = Inr (Fin a30)" unfolding a30_def
    using truediv_small[OF s30, of 30] by simp
  have c12: "(1::rat) / 2 \<le> 5404319552844595 / 4503599627370496" "(5404319552844595 / 4503599627370496 :: rat) \<le> 2" by simp_all
  have c08: "(1::rat) / 2 \<le> 3602879701896397 / 4503599627370496" "(3602879701896397 / 4503599627370496 :: rat) \<le> 2" by simp_all
  note P12 = product_within[OF s30 c12]
  note P08 = product_within[OF s30 c08]
  have p12: "a30 * (5404319552844595 / 4503599627370496) - a30 * (5404319552844595 / 4503599627370496) / 2 ^ 53 \<le> nearest (a30 * (5404319552844595 / 4503599627370496))"
    "nearest (a30 * (5404319552844595 / 4503599627370496)) \<le> a30 * (5404319552844595 / 4503599627370496) + a30 * (5404319552844595 / 4503599627370496) / 2 ^ 53"
    unfolding a30_def by (rule P12(2), rule P12(3))
  have p08: "a30 * (3602879701896397 / 4503599627370496) - a30 * (3602879701896397 / 4503599627370496) / 2 ^ 53 \<le> nearest (a30 * (3602879701896397 / 4503599627370496))"
    "nearest (a30 * (3602879701896397 / 4503599627370496)) \<le> a30 * (3602879701896397 / 4503599627370496) + a30 * (3602879701896397 / 4503599627370496) / 2 ^ 53"
    unfolding a30_def by (rule P08(2), rule P08(3))
  have "fmul (Fin a30) (Fin (5404319552844595 / 4503599627370496)) = Fin (nearest (a30 * (5404319552844595 / 4503599627370496)))"
    "fmul (Fin a30) (Fin (3602879701896397 / 4503599627370496)) = Fin (nearest (a30 * (3602879701896397 / 4503599627370496)))"
    unfolding a30_def by (rule P12(1), rule P08(1))
  then show "classify_trend (Fin a7) (Fin a30) =
           (if nearest (a30 * (5404319552844595 / 4503599627370496)) < a7 then Trending_up
            else if a7 < nearest (a30 * (3602879701896397 / 4503599627370496)) then Cooling_down else Steady)"
    unfolding classify_trend_def literal_12 literal_08 by (simp only: fless.simps)
  have i7: "(of_int 7 :: rat) = 7" and i30: "(of_int 30 :: rat) = 30" by simp_all
  have A7: "of_int s7 / 7 - of_int s7 / 7 / 2 ^ 53 \<le> a7"
    "a7 \<le> of_int s7 / 7 + of_int s7 / 7 / 2 ^ 53"
    unfolding a7_def using average_within(1,2)[of s7 7] s7(1) unfolding i7 by blast+
  have A30: "of_int s30 / 30 - of_int s30 / 30 / 2 ^ 53 \<le> a30"
    "a30 \<le> of_int s30 / 30 + of_int s30 / 30 / 2 ^ 53"
    unfolding a30_def using average_within(1,2)[of s30 30] s30(1) unfolding i30 by blast+
  have r7: "0 \<le> (of_int s7 :: rat)" "(of_int s7 :: rat) \<le> 2 ^ 40"
    using s7 of_int_bound by simp_all
  have r30: "0 \<le> (of_int s30 :: rat)" "(of_int s30 :: rat) \<le> 2 ^ 40"
    using s30 of_int_bound by simp_all
  {
    assume "7 * s30 < 25 * s7"
    from of_int_step[OF this] have "7 * of_int s30 + 1 \<le> 25 * (of_int s7 :: rat)" by simp
    from up_arith[OF r30 this A30(2) p12(2) A7(1)]
    show "nearest (a30 * (5404319552844595 / 4503599627370496)) < a7" .
  }
  {
    assume "25 * s7 < 7 * s30"
    from of_int_step[OF this] have "25 * of_int s7 + 1 \<le> 7 * (of_int s30 :: rat)" by simp
    from not_up_arith[OF r7(1) r30(2) this A30(1) p12(1) A7(2)]
    show "a7 < nearest (a30 * (5404319552844595 / 4503599627370496))" .
  }
  {
    assume "75 * s7 < 14 * s30"
    from of_int_step[OF this] have "75 * of_int s7 + 1 \<le> 14 * (of_int s30 :: rat)" by simp
    from down_arith[OF r7(1) r30(2) this A30(1) p08(1) A7(2)]
    show "a7 < nearest (a30 * (3602879701896397 / 4503599627370496))" .
  }
  {
    assume "14 * s30 < 75 * s7"
    from of_int_step[OF this] have "14 * of_int s30 + 1 \<le> 75 * (of_int s7 :: rat)" by simp
    from not_down_arith[OF r30 this A30(2) p08(2) A7(1)]
    show "nearest (a30 * (3602879701896397 / 4503599627370496)) < a7" .
  }
qed

lemma round_half_even_near:
  assumes "\<bar>d\<bar> < 1 / 2"
  shows "round_half_even (of_int n + d) = n"
proof (cases "0 \<le> d")
  case True
  then have "\<lfloor>of_int n + d\<rfloor> = n" using assms by (intro floor_unique) simp_all
  then show ?thesis using True assms by (simp add: round_half_even_def Let_def)
next
  case False
  then have "\<lfloor>of_int n + d\<rfloor> = n - 1" using assms by (intro floor_unique) simp_all
  then show ?thesis using False assms by (simp add: round_half_even_def Let_def)
qed

lemma nearest_near:
  assumes "ulp_exponent x \<le> e" "x = of_int m * 2 powi e + d"
    "\<bar>d\<bar> < 2 powi ulp_exponent x / 2" "x \<noteq> 0"
  shows "nearest x = of_int m * 2 powi e"
proof -
  define u where "u = ulp_exponent x"
  define k where "k = nat (e - u)"
  have e: "e = u + int k" using assms(1) by (simp add: k_def u_def)
  have p: "(2::rat) powi e = 2 powi u * 2 ^ k"
    unfolding e by (subst power_int_add) simp_all
  have upos: "(0::rat) < 2 powi u" by (rule two_powi_pos)
  have "x / 2 powi u = of_int (m * 2 ^ k) + d / 2 powi u"
    using assms(2) upos by (simp add: p field_simps)
  moreover have "\<bar>d / 2 powi u\<bar> < 1 / 2"
    using assms(3) upos by (simp add: u_def field_simps)
  ultimately have "round_half_even (x / 2 powi u) = m * 2 ^ k"
    by (simp only: round_half_even_near)
  then have "nearest x = of_int (m * 2 ^ k) * 2 powi u"
    using assms(4) by (simp add: nearest_def u_def)
  then show ?thesis by (simp add: p)
qed

lemma nearest_of_int:
  assumes "\<bar>n\<bar> < 2 ^ 53"
  shows "nearest (of_int n) = of_int n"
proof (cases "n = 0")
  case True
  then show ?thesis by (simp add: nearest_0)
next
  case False
  have "\<bar>(of_int n :: rat)\<bar> < 2 powi 53"
    using assms by (simp add: of_int_abs[symmetric] of_int_less_numeral_power_cancel_iff del: of_int_abs)
  moreover have "0 < \<bar>(of_int n :: rat)\<bar>" using False by simp
  ultimately have "ilog2 \<bar>of_int n\<bar> < 53" by (intro ilog2_less)
  then have "ulp_exponent (of_int n) \<le> 0" by (simp add: ulp_exponent_def)
  then show ?thesis by (rule nearest_fixed) simp
qed

lemma nearest_half_int:
  assumes "0 \<le> n" "n < 2 ^ 52"
  shows "nearest (of_int n / 2) = of_int n / 2"
proof (cases "n = 0")
  case True
  then show ?thesis by (simp add: nearest_0)
next
  case False
  have "(of_int n :: rat) < 2 ^ 52" using assms by (simp add: of_int_less_numeral_power_cancel_iff)
  then have "\<bar>(of_int n :: rat) / 2\<bar> < 2 powi 51" using assms by simp
  moreover have "0 < \<bar>(of_int n :: rat) / 2\<bar>" using False assms by simp
  ultimately have "ilog2 \<bar>of_int n / 2\<bar> < 51" by (intro ilog2_less)
  then have "ulp_exponent (of_int n / 2) \<le> - 1" by (simp add: ulp_exponent_def)
  then show ?thesis by (rule nearest_fixed) (simp add: power_int_minus_divide)
qed

text \<open>A week at exactly four fifths of the month: the product \<^verbatim>\<open>avg_30 * 0.8\<close> is
  rounded back onto \<^verbatim>\<open>avg_7\<close>.\<close>

lemma down_boundary:
  assumes "0 \<le> k" "k \<le> 2 ^ 34"
  shows "nearest (nearest (of_int (75 * k) / 30) * (3602879701896397 / 4503599627370496)) = nearest (of_int (14 * k) / 7)"
proof (cases "k = 0")
  case True
  then show ?thesis by (simp add: nearest_0)
next
  case False
  then have kpos: "0 < k" using assms by simp
  have kr: "(0::rat) < of_int k" "(of_int k :: rat) \<le> 2 ^ 34"
    using kpos assms by (simp_all add: of_int_le_numeral_power_cancel_iff)
  have "(of_int (75 * k) :: rat) / 30 = of_int (5 * k) / 2" by simp
  moreover have "nearest (of_int (5 * k) / 2) = of_int (5 * k) / 2"
    using assms by (intro nearest_half_int) simp_all
  ultimately have a30: "nearest (of_int (75 * k) / 30) = of_int (5 * k) / 2" by simp
  have "(of_int (14 * k) :: rat) / 7 = of_int (2 * k)" by simp
  moreover have "nearest (of_int (2 * k)) = of_int (2 * k)"
    using assms by (intro nearest_of_int) simp
  ultimately have a7: "nearest (of_int (14 * k) / 7) = of_int (2 * k)" by simp
  define x :: rat where "x = of_int (5 * k) / 2 * (3602879701896397 / 4503599627370496)"
  have x: "x = of_int (2 * k) * 2 powi 0 + of_int k / 2 ^ 53" by (simp add: x_def)
  have xlo: "2 * of_int k \<le> x" and xhi: "x < 2 ^ 53" using kr by (simp_all add: x)
  have xpos: "0 < x" using xlo kr by linarith
  have "ilog2 x < 53" using xpos xhi by (intro ilog2_less) simp_all
  then have u0: "ulp_exponent x \<le> 0" using xpos by (simp add: ulp_exponent_def)
  have "x < 2 powi (ilog2 x + 1)" using ilog2_bounds[OF xpos] by simp
  also have "\<dots> = 2 powi ilog2 x * 2" by (subst power_int_add) simp_all
  finally have half: "(of_int k :: rat) < 2 powi ilog2 x" using xlo by linarith
  have "ilog2 x - 52 \<le> ulp_exponent x" using xpos by (simp add: ulp_exponent_def)
  then have "(2::rat) powi (ilog2 x - 52) \<le> 2 powi ulp_exponent x" by (rule two_powi_mono)
  moreover have "(2::rat) powi (ilog2 x - 52) = 2 powi ilog2 x / 2 ^ 52"
    by (subst power_int_diff) simp_all
  ultimately have "(of_int k :: rat) / 2 ^ 52 < 2 powi ulp_exponent x" using half
    by (simp add: field_simps)
  then have d: "\<bar>(of_int k :: rat) / 2 ^ 53\<bar> < 2 powi ulp_exponent x / 2" using kr by simp
  have xne: "x \<noteq> 0" using xpos by simp
  have "nearest x = of_int (2 * k) * 2 powi 0"
    by (rule nearest_near[OF u0 x d xne])
  then have "nearest x = of_int (2 * k)" by simp
  then show ?thesis unfolding a30 a7 x_def .
qed

lemma sum_list_take_bounds:
  assumes "\<forall>c\<in>set xs. (0::int) \<le> c"
  shows "0 \<le> sum_list (take n xs)" "sum_list (take n xs) \<le> sum_list xs"
proof -
  have t: "\<forall>c\<in>set (take n xs). 0 \<le> c" and d: "\<forall>c\<in>set (drop n xs). 0 \<le> c"
    using assms by (auto dest: in_set_takeD in_set_dropD)
  show "0 \<le> sum_list (take n xs)" using t by (intro sum_list_nonneg) simp
  have "0 \<le> sum_list (drop n xs)" using d by (intro sum_list_nonneg) simp
  moreover have "sum_list xs = sum_list (take n xs) + sum_list (drop n xs)"
    by (metis append_take_drop_id sum_list_append)
  ultimately show "sum_list (take n xs) \<le> sum_list xs" by simp
qed

lemma rat_cross:
  fixes s7 s30 :: int
  shows "(12 / 10 * (of_int s30 / 30) < (of_int s7 :: rat) / 7) = (7 * s30 < 25 * s7)"
    and "((of_int s7 :: rat) / 7 < 8 / 10 * (of_int s30 / 30)) = (75 * s7 < 14 * s30)"
    and "(12 / 10 * (of_int s30 / 30) \<le> (of_int s7 :: rat) / 7) = (7 * s30 \<le> 25 * s7)"
proof -
  have "(12 / 10 * (of_int s30 / 30) < (of_int s7 :: rat) / 7)
      = ((of_int (7 * s30) :: rat) < of_int (25 * s7))" by (simp add: field_simps)
  then show "(12 / 10 * (of_int s30 / 30) < (of_int s7 :: rat) / 7) = (7 * s30 < 25 * s7)"
    by (simp only: of_int_less_iff)
  have "((of_int s7 :: rat) / 7 < 8 / 10 * (of_int s30 / 30))
      = ((of_int (75 * s7) :: rat) < of_int (14 * s30))" by (simp add: field_simps)
  then show "((of_int s7 :: rat) / 7 < 8 / 10 * (of_int s30 / 30)) = (75 * s7 < 14 * s30)"
    by (simp only: of_int_less_iff)
  have "(12 / 10 * (of_int s30 / 30) \<le> (of_int s7 :: rat) / 7)
      = ((of_int (7 * s30) :: rat) \<le> of_int (25 * s7))" by (simp add: field_simps)
  then show "(12 / 10 * (of_int s30 / 30) \<le> (of_int s7 :: rat) / 7) = (7 * s30 \<le> 25 * s7)"
    by (simp only: of_int_le_iff)
qed

lemma trend_of_sums:
  assumes s7: "0 \<le> s7" "s7 \<le> s30" and s30: "s30 \<le> 2 ^ 40"
  defines "t \<equiv> classify_trend (Fin (nearest (of_int s7 / 7))) (Fin (nearest (of_int s30 / 30)))"
  shows "truediv s7 7 = Inr (Fin (nearest (of_int s7 / 7)))"
    and "truediv s30 30 = Inr (Fin (nearest (of_int s30 / 30)))"
    and "7 * s30 < 25 * s7 \<Longrightarrow> t = Trending_up"
    and "t = Trending_up \<Longrightarrow> 7 * s30 \<le> 25 * s7"
    and "t = Cooling_down \<longleftrightarrow> 75 * s7 < 14 * s30"
proof -
  have b7: "s7 \<le> 2 ^ 40" and b30: "0 \<le> s30" using s7 s30 by simp_all
  note T = trend_by_sums[OF s7(1) b7 b30 s30]
  show "truediv s7 7 = Inr (Fin (nearest (of_int s7 / 7)))" by (rule T(1))
  show "truediv s30 30 = Inr (Fin (nearest (of_int s30 / 30)))" by (rule T(2))
  show "7 * s30 < 25 * s7 \<Longrightarrow> t = Trending_up"
    using T(4) unfolding t_def T(3) by simp
  show "t = Trending_up \<Longrightarrow> 7 * s30 \<le> 25 * s7"
  proof (rule ccontr)
    assume up: "t = Trending_up" and "\<not> 7 * s30 \<le> 25 * s7"
    then have "25 * s7 < 7 * s30" by simp
    from T(5)[OF this] up show False unfolding t_def T(3) by (simp split: if_splits)
  qed
  show "t = Cooling_down \<longleftrightarrow> 75 * s7 < 14 * s30"
  proof
    assume lt: "75 * s7 < 14 * s30"
    then have "25 * s7 < 7 * s30" using s7 by linarith
    from T(5)[OF this] T(6)[OF lt] show "t = Cooling_down" unfolding t_def T(3) by simp
  next
    assume down: "t = Cooling_down"
    then have lt: "nearest (of_int s7 / 7) < nearest (nearest (of_int s30 / 30) * (3602879701896397 / 4503599627370496))"
      unfolding t_def T(3) by (simp split: if_splits)
    have "\<not> 14 * s30 < 75 * s7"
    proof
      assume "14 * s30 < 75 * s7"
      from T(7)[OF this] lt show False by (rule less_asym)
    qed
    moreover have "75 * s7 \<noteq> 14 * s30"
    proof
      assume e: "75 * s7 = 14 * s30"
      then have "14 dvd 75 * s7" by simp
      moreover have "coprime (14::int) 75" by code_simp
      ultimately have "14 dvd s7" by (simp add: coprime_dvd_mult_right_iff)
      then obtain k where k7: "s7 = 14 * k" ..
      with e have k30: "s30 = 75 * k" by simp
      have "0 \<le> k" "k \<le> 2 ^ 34" using k7 k30 s7(1) s30 by simp_all
      from down_boundary[OF this]
      have "nearest (nearest (of_int s30 / 30) * (3602879701896397 / 4503599627370496)) = nearest (of_int s7 / 7)"
        unfolding k7 k30 .
      with lt show False by (simp only: less_irrefl)
    qed
    ultimately show "75 * s7 < 14 * s30" by simp
  qed
qed

lemma average_30:
  "length h = 30 \<Longrightarrow> average h = of_int (sum_list h) / 30"
  "length h = 30 \<Longrightarrow> average (take 7 h) = of_int (sum_list (take 7 h)) / 7"
  by (simp_all add: average_def)

text \<open>
  Claim C4, amended. For thirty counts that are not negative (their sum at most
  \<open>2 ^ 40\<close>) the trend is computed, it is "up" whenever the week's average is more
  than a fifth above the month's and only if it is at least a fifth above, and it
  is "down" exactly when the week's average is more than a fifth below; otherwise
  it is "steady". When the week's average is exactly a fifth above the month's, the
  rounding of \<^verbatim>\<open>avg_30\<close> and of \<^verbatim>\<open>avg_30 * 1.2\<close> decides between "up" and "steady".
\<close>

theorem trend_thresholds:
  assumes "length history = 30" "\<forall>c\<in>set history. 0 \<le> c" "sum_list history \<le> 2 ^ 40"
  shows "\<exists>t. trend_of history = Inr t \<and>
     (12 / 10 * average history < average (take 7 history) \<longrightarrow> t = Trending_up) \<and>
     (t = Trending_up \<longrightarrow> 12 / 10 * average history \<le> average (take 7 history)) \<and>
     (t = Cooling_down \<longleftrightarrow> average (take 7 history) < 8 / 10 * average history)"
proof -
  define s7 where "s7 = sum_list (take 7 history)"
  define s30 where "s30 = sum_list history"
  have s: "0 \<le> s7" "s7 \<le> s30" "s30 \<le> 2 ^ 40"
    using sum_list_take_bounds[OF assms(2), of 7] assms(3) by (simp_all add: s7_def s30_def)
  note T = trend_of_sums[OF s]
  have "trend_of history =
      Inr (classify_trend (Fin (nearest (of_int s7 / 7))) (Fin (nearest (of_int s30 / 30))))"
    unfolding trend_of_30[OF assms(1)] s7_def[symmetric] s30_def[symmetric] T(1) T(2) by simp
  then show ?thesis
    using T(3,4,5)
    unfolding average_30[OF assms(1)] s7_def[symmetric] s30_def[symmetric] rat_cross
    by blast
qed

lemma nearest_week_7: "nearest (of_int 49 / 7) = 7"
  by code_simp

lemma nearest_month_175: "nearest (of_int 175 / 30) = 6567749456581973 / 1125899906842624"
  by code_simp

lemma nearest_product_175: "nearest (6567749456581973 / 1125899906842624 * (5404319552844595 / 4503599627370496)) = 7881299347898367 / 1125899906842624"
  by code_simp

text \<open>
  Claim C4, as stated, fails on the code at the upper boundary: with 49 events in
  the week and 175 in the month, \<^verbatim>\<open>avg_7\<close> is \<^verbatim>\<open>7.0\<close>, \<^verbatim>\<open>avg_30\<close> is
  \<^verbatim>\<open>5.833333333333333\<close> and \<^verbatim>\<open>avg_30 * 1.2\<close> is \<^verbatim>\<open>6.999999999999999\<close>, so the trend is
  "up", while the week's average is not more than a fifth above the month's: it is
  exactly a fifth above.
\<close>

theorem rounding_decides_at_one_fifth_more:
  "trend_of week_7_month_175 = Inr Trending_up \<and>
   average (take 7 week_7_month_175) = 12 / 10 * average week_7_month_175"
proof -
  have len: "length week_7_month_175 = 30" by (simp add: week_7_month_175_def)
  have s30: "sum_list week_7_month_175 = 175" by (simp add: week_7_month_175_def)
  have s7: "sum_list (take 7 week_7_month_175) = 49" by (simp add: week_7_month_175_def)
  note T = trend_by_sums[of 49 175]
  have "trend_of week_7_month_175 =
      Inr (classify_trend (Fin (nearest (of_int 49 / 7))) (Fin (nearest (of_int 175 / 30))))"
    unfolding trend_of_30[OF len] s7 s30 using T(1,2) by simp
  also have "classify_trend (Fin (nearest (of_int 49 / 7))) (Fin (nearest (of_int 175 / 30)))
      = Trending_up"
    using T(3) unfolding nearest_week_7 nearest_month_175 nearest_product_175 by simp
  finally show ?thesis by (simp add: average_30[OF len] s7 s30)
qed

text \<open>The three examples of the specification.\<close>

theorem trend_thresholds_witness:
  "trend_of week_10_month_8 = Inr Trending_up \<and>
   average (take 7 week_10_month_8) = 10 \<and> average week_10_month_8 = 8 \<and>
   trend_of week_6_month_8 = Inr Cooling_down \<and>
   average (take 7 week_6_month_8) = 6 \<and> average week_6_month_8 = 8 \<and>
   trend_of week_9_month_10 = Inr Steady \<and>
   average (take 7 week_9_month_10) = 9 \<and> average week_9_month_10 = 10"
proof -
  have a: "average (take 7 week_10_month_8) = 10" "average week_10_month_8 = 8"
    "average (take 7 week_6_month_8) = 6" "average week_6_month_8 = 8"
    "average (take 7 week_9_month_10) = 9" "average week_9_month_10 = 10"
    by (simp_all add: average_def week_10_month_8_def week_6_month_8_def week_9_month_10_def)
  have h: "length week_10_month_8 = 30" "\<forall>c\<in>set week_10_month_8. 0 \<le> c"
       "sum_list week_10_month_8 \<le> 2 ^ 40"
      "length week_6_month_8 = 30" "\<forall>c\<in>set week_6_month_8. 0 \<le> c"
       "sum_list week_6_month_8 \<le> 2 ^ 40"
      "length week_9_month_10 = 30" "\<forall>c\<in>set week_9_month_10. 0 \<le> c"
       "sum_list week_9_month_10 \<le> 2 ^ 40"
    by (simp_all add: week_10_month_8_def week_6_month_8_def week_9_month_10_def)
  have "trend_of week_10_month_8 = Inr Trending_up"
    using trend_thresholds[OF h(1,2,3)] unfolding a by auto
  moreover have "trend_of week_6_month_8 = Inr Cooling_down"
    using trend_thresholds[OF h(4,5,6)] unfolding a by auto
  moreover have "trend_of week_9_month_10 = Inr Steady"
  proof -
    from trend_thresholds[OF h(7,8,9)] obtain t where
      t: "trend_of week_9_month_10 = Inr t" "t = Trending_up \<longrightarrow> (12 / 10 * 10 :: rat) \<le> 9"
         "t = Cooling_down \<longleftrightarrow> (9 :: rat) < 8 / 10 * 10"
      unfolding a by blast
    then have "t = Steady" by (cases t) simp_all
    with t(1) show ?thesis by simp
  qed
  ultimately show ?thesis using a by simp
qed

lemma char_102: "(of_char c :: nat) = 102 \<longleftrightarrow> c = CHR ''f''"
proof -
  have "(of_char (CHR ''f'') :: nat) = 102" by simp
  then have "(of_char c :: nat) = 102 \<longleftrightarrow> (of_char c :: nat) = of_char (CHR ''f'')"
    by (simp only:)
  then show ?thesis by (simp only: of_char_eq_iff)
qed

lemma hex_value_digit:
  assumes "hex_char c"
  shows "\<exists>v. hex_value c = Some v \<and> 0 \<le> v \<and> v \<le> 15 \<and> (v = 15 \<longleftrightarrow> c = CHR ''f'')"
proof -
  define n where "n = (of_char c :: nat)"
  from assms have r: "(48 \<le> n \<and> n \<le> 57) \<or> (97 \<le> n \<and> n \<le> 102)"
    by (simp add: hex_char_def n_def Let_def)
  have f: "n = 102 \<longleftrightarrow> c = CHR ''f''" unfolding n_def by (rule char_102)
  show ?thesis
  proof (cases "48 \<le> n \<and> n \<le> 57")
    case True
    then have "hex_value c = Some (int n - 48)"
      by (simp add: hex_value_def n_def[symmetric] Let_def)
    moreover have "n \<noteq> 102" using True by simp
    ultimately show ?thesis using True f by auto
  next
    case False
    with r have b: "97 \<le> n" "n \<le> 102" by auto
    then have "hex_value c = Some (int n - 87)"
      using False by (simp add: hex_value_def n_def[symmetric] Let_def)
    moreover have "int n - 87 = 15 \<longleftrightarrow> n = 102" by linarith
    ultimately show ?thesis using b f by auto
  qed
qed

lemma int_hex_four:
  assumes "list_all hex_char [c1, c2, c3, c4]"
  shows "\<exists>h. int_hex [c1, c2, c3, c4] = Some h \<and> 0 \<le> h \<and> h \<le> 65535 \<and>
           (h = 65535 \<longleftrightarrow> [c1, c2, c3, c4] = ''ffff'')"
proof -
  from assms have c: "hex_char c1" "hex_char c2" "hex_char c3" "hex_char c4"
    by simp_all
  from hex_value_digit[OF c(1)] obtain v1 where
    v1: "hex_value c1 = Some v1" "0 \<le> v1" "v1 \<le> 15" "v1 = 15 \<longleftrightarrow> c1 = CHR ''f''" by blast
  from hex_value_digit[OF c(2)] obtain v2 where
    v2: "hex_value c2 = Some v2" "0 \<le> v2" "v2 \<le> 15" "v2 = 15 \<longleftrightarrow> c2 = CHR ''f''" by blast
  from hex_value_digit[OF c(3)] obtain v3 where
    v3: "hex_value c3 = Some v3" "0 \<le> v3" "v3 \<le> 15" "v3 = 15 \<longleftrightarrow> c3 = CHR ''f''" by blast
  from hex_value_digit[OF c(4)] obtain v4 where
    v4: "hex_value c4 = Some v4" "0 \<le> v4" "v4 \<le> 15" "v4 = 15 \<longleftrightarrow> c4 = CHR ''f''" by blast
  define h where "h = 16 * (16 * (16 * v1 + v2) + v3) + v4"
  have h: "int_hex [c1, c2, c3, c4] = Some h"
    by (simp add: int_hex_def v1(1) v2(1) v3(1) v4(1) h_def)
  have lo: "0 \<le> h"
    unfolding h_def using v1(2,3) v2(2,3) v3(2,3) v4(2,3) by simp
  have hi: "h \<le> 65535"
    unfolding h_def using v1(2,3) v2(2,3) v3(2,3) v4(2,3) by simp
  have "h = 65535 \<longleftrightarrow> v1 = 15 \<and> v2 = 15 \<and> v3 = 15 \<and> v4 = 15"
  proof
    assume e: "h = 65535"
    have a: "v1 = 15" using e v1(2,3) v2(2,3) v3(2,3) v4(2,3) unfolding h_def by simp
    have b: "v2 = 15" using e v2(2,3) v3(2,3) v4(2,3) unfolding h_def a by simp
    have c: "v3 = 15" using e v3(2,3) v4(2,3) unfolding h_def a b by simp
    have d: "v4 = 15" using e unfolding h_def a b c by simp
    from a b c d show "v1 = 15 \<and> v2 = 15 \<and> v3 = 15 \<and> v4 = 15" by simp
  next
    assume "v1 = 15 \<and> v2 = 15 \<and> v3 = 15 \<and> v4 = 15"
    then show "h = 65535" by (simp add: h_def)
  qed
  then have "h = 65535 \<longleftrightarrow> [c1, c2, c3, c4] = ''ffff''"
    using v1(4) v2(4) v3(4) v4(4) by simp
  with h lo hi show ?thesis by blast
qed

lemma four_chars: "length xs = 4 \<Longrightarrow> \<exists>a b c d. xs = [a, b, c, d]"
  by (auto simp: numeral_eq_Suc length_Suc_conv)

lemma hexdigest_pieces:
  assumes "is_hexdigest s"
  shows "\<exists>h1 h2. int_hex (take 4 s) = Some h1 \<and> int_hex (take 4 (drop 4 s)) = Some h2 \<and>
     0 \<le> h1 \<and> h1 \<le> 65535 \<and> 0 \<le> h2 \<and> h2 \<le> 65535 \<and>
     (h1 = 65535 \<longleftrightarrow> take 4 s = ''ffff'')"
proof -
  from assms have len: "length s = 32" and ok: "list_all hex_char s"
    by (simp_all add: is_hexdigest_def)
  have "length (take 4 s) = 4" "length (take 4 (drop 4 s)) = 4" using len by simp_all
  then obtain a b c d a' b' c' d' where
    p: "take 4 s = [a, b, c, d]" "take 4 (drop 4 s) = [a', b', c', d']"
    using four_chars by metis
  have "list_all hex_char (take 4 s)" "list_all hex_char (take 4 (drop 4 s))"
    using ok by (auto simp: list_all_iff dest: in_set_takeD in_set_dropD)
  then have "list_all hex_char [a, b, c, d]" "list_all hex_char [a', b', c', d']"
    unfolding p by simp_all
  from int_hex_four[OF this(1)] int_hex_four[OF this(2)] show ?thesis unfolding p by blast
qed

lemma nearest_pi: "nearest (1 * (884279719003555 / 281474976710656)) = 884279719003555 / 281474976710656"
  by code_simp

lemma nearest_two_pi: "nearest (884279719003555 / 281474976710656 * 2) = 884279719003555 / 140737488355328"
  by code_simp

lemma nearest_below_one: "nearest (65534 / 65535) = 281470681677823 / 281474976710656"
  by code_simp

lemma nearest_below_pi: "nearest (281470681677823 / 281474976710656 * (884279719003555 / 281474976710656)) = 7074129806079679 / 2251799813685248"
  by code_simp

lemma nearest_below_two_pi: "nearest (7074129806079679 / 2251799813685248 * 2) = 7074129806079679 / 1125899906842624"
  by code_simp

lemma nearest_c06: "nearest (1 * (5404319552844595 / 9007199254740992)) = 5404319552844595 / 9007199254740992"
  by code_simp

lemma nearest_c08: "nearest (3602879701896397 / 4503599627370496 + 0) = 3602879701896397 / 4503599627370496"
  by code_simp

lemma nearest_c14: "nearest (3602879701896397 / 4503599627370496 + (5404319552844595 / 9007199254740992)) = 3152519739159347 / 2251799813685248"
  by code_simp

lemma fmul_small:
  assumes "\<bar>a\<bar> \<le> 8" "\<bar>b\<bar> \<le> 8"
  shows "fmul (Fin a) (Fin b) = Fin (nearest (a * b))"
proof -
  have "\<bar>a * b\<bar> \<le> 8 * 8" unfolding abs_mult using assms by (intro mult_mono) simp_all
  also have "\<dots> \<le> (2::rat) ^ 1000" by simp
  finally show ?thesis by (simp add: round_double_bounded)
qed

lemma fadd_small:
  assumes "\<bar>a\<bar> \<le> 8" "\<bar>b\<bar> \<le> 8"
  shows "fadd (Fin a) (Fin b) = Fin (nearest (a + b))"
proof -
  have "\<bar>a + b\<bar> \<le> 8 + 8" using assms by linarith
  also have "\<dots> \<le> (2::rat) ^ 1000" by simp
  finally show ?thesis by (simp add: round_double_bounded)
qed

lemma unit_quotient:
  assumes "0 \<le> h" "h \<le> 65535"
  defines "r \<equiv> nearest (of_int h / 65535)"
  shows "truediv h 65535 = Inr (Fin r)" "0 \<le> r" "r \<le> 1"
    "h = 65535 \<Longrightarrow> r = 1" "h \<noteq> 65535 \<Longrightarrow> r \<le> 281470681677823 / 281474976710656"
proof -
  show "truediv h 65535 = Inr (Fin r)"
    unfolding r_def using truediv_unit[of h 65535] assms(1,2) by simp
  have q: "(0::rat) \<le> of_int h / 65535" "(of_int h :: rat) / 65535 \<le> 1"
    using assms(1,2) by simp_all
  show "0 \<le> r" unfolding r_def using q(1) by (rule nearest_nonneg)
  show "r \<le> 1" unfolding r_def using nearest_mono[OF q(2)] by (simp add: nearest_1)
  show "h = 65535 \<Longrightarrow> r = 1" unfolding r_def by (simp add: nearest_1)
  show "r \<le> 281470681677823 / 281474976710656" if "h \<noteq> 65535"
  proof -
    have "h \<le> 65534" using that assms(2) by simp
    then have "(of_int h :: rat) \<le> 65534" by simp
    then have "(of_int h :: rat) / 65535 \<le> 65534 / 65535" by simp
    from nearest_mono[OF this] show ?thesis unfolding r_def nearest_below_one .
  qed
qed

lemma phase_offset_range:
  assumes "0 \<le> h" "h \<le> 65535"
  shows "\<exists>p. phase_offset h = Inr (Fin p) \<and> 0 \<le> p \<and> p \<le> 884279719003555 / 140737488355328 \<and>
           (p = 884279719003555 / 140737488355328 \<longleftrightarrow> h = 65535)"
proof -
  define r where "r = nearest (of_int h / 65535)"
  note U = unit_quotient[OF assms, folded r_def]
  define y where "y = nearest (r * (884279719003555 / 281474976710656))"
  define p where "p = nearest (y * 2)"
  have y0: "0 \<le> y" unfolding y_def using U(2) by (intro nearest_nonneg) simp
  have "r * (884279719003555 / 281474976710656) \<le> 1 * (884279719003555 / 281474976710656)" using U(3) by (intro mult_right_mono) simp_all
  from nearest_mono[OF this] have y1: "y \<le> 884279719003555 / 281474976710656" unfolding y_def nearest_pi .
  have p0: "0 \<le> p" unfolding p_def using y0 by (intro nearest_nonneg) simp
  have "y * 2 \<le> 884279719003555 / 281474976710656 * 2" using y1 by simp
  from nearest_mono[OF this] have p1: "p \<le> 884279719003555 / 140737488355328" unfolding p_def nearest_two_pi .
  have m1: "fmul (Fin r) math_pi = Fin y"
    unfolding math_pi_def y_def using U(2,3) by (intro fmul_small) simp_all
  have m2: "fmul (Fin y) (Fin 2) = Fin p"
    unfolding p_def using y0 y1 by (intro fmul_small) simp_all
  have ph: "phase_offset h = Inr (Fin p)"
    unfolding phase_offset_def U(1) by (simp only: sum.case m1 m2)
  have top: "p = 884279719003555 / 140737488355328" if "h = 65535"
  proof -
    have "r = 1" using U(4) that by simp
    then have "y = 884279719003555 / 281474976710656" unfolding y_def by (simp only: nearest_pi)
    then show ?thesis unfolding p_def by (simp only: nearest_two_pi)
  qed
  have below: "p < 884279719003555 / 140737488355328" if "h \<noteq> 65535"
  proof -
    have "r \<le> 281470681677823 / 281474976710656" using U(5) that by simp
    then have "r * (884279719003555 / 281474976710656) \<le> 281470681677823 / 281474976710656 * (884279719003555 / 281474976710656)" by (intro mult_right_mono) simp_all
    from nearest_mono[OF this] have "y \<le> 7074129806079679 / 2251799813685248" unfolding y_def nearest_below_pi .
    then have "y * 2 \<le> 7074129806079679 / 2251799813685248 * 2" by simp
    from nearest_mono[OF this] have "p \<le> 7074129806079679 / 1125899906842624" unfolding p_def nearest_below_two_pi .
    then show ?thesis by simp
  qed
  have "p = 884279719003555 / 140737488355328 \<longleftrightarrow> h = 65535" using top below by fastforce
  with ph p0 p1 show ?thesis by blast
qed

lemma freq_mod_range:
  assumes "0 \<le> h" "h \<le> 65535"
  shows "\<exists>f. freq_mod h = Inr (Fin f) \<and> 3602879701896397 / 4503599627370496 \<le> f \<and> f \<le> 3152519739159347 / 2251799813685248"
proof -
  define r where "r = nearest (of_int h / 65535)"
  note U = unit_quotient[OF assms, folded r_def]
  define z where "z = nearest (r * (5404319552844595 / 9007199254740992))"
  define f where "f = nearest (3602879701896397 / 4503599627370496 + z)"
  have z0: "0 \<le> z" unfolding z_def using U(2) by (intro nearest_nonneg) simp
  have "r * (5404319552844595 / 9007199254740992) \<le> 1 * (5404319552844595 / 9007199254740992)" using U(3) by (intro mult_right_mono) simp_all
  from nearest_mono[OF this] have z1: "z \<le> 5404319552844595 / 9007199254740992" unfolding z_def nearest_c06 .
  have "3602879701896397 / 4503599627370496 + 0 \<le> 3602879701896397 / 4503599627370496 + z" using z0 by simp
  from nearest_mono[OF this] have f0: "3602879701896397 / 4503599627370496 \<le> f" unfolding f_def nearest_c08 .
  have "3602879701896397 / 4503599627370496 + z \<le> 3602879701896397 / 4503599627370496 + (5404319552844595 / 9007199254740992)" using z1 by simp
  from nearest_mono[OF this] have f1: "f \<le> 3152519739159347 / 2251799813685248" unfolding f_def nearest_c14 .
  have m: "fmul (Fin r) (float_literal (6 / 10)) = Fin z"
    unfolding literal_06 z_def using U(2,3) by (intro fmul_small) simp_all
  have a: "fadd (float_literal (8 / 10)) (Fin z) = Fin f"
    unfolding literal_08 f_def using z0 z1 by (intro fadd_small) simp_all
  have "freq_mod h = Inr (Fin f)"
    unfolding freq_mod_def U(1) by (simp only: sum.case m a)
  with f0 f1 show ?thesis by blast
qed

lemma full_turn_is_two_pi: "fmul math_pi (Fin 2) = Fin full_turn"
proof -
  have "fmul math_pi (Fin 2) = Fin (nearest (884279719003555 / 281474976710656 * 2))"
    unfolding math_pi_def by (intro fmul_small) simp_all
  then show ?thesis unfolding nearest_two_pi full_turn_def .
qed

lemma dna_parameters_of_pieces:
  assumes "int_hex (take 4 s) = Some h1" "int_hex (take 4 (drop 4 s)) = Some h2"
    "phase_offset h1 = Inr p" "freq_mod h2 = Inr f"
  shows "dna_parameters s = Some (Inr (p, f))"
  using assms by (simp add: dna_parameters_def)

text \<open>
  Claim C8, as the program has it. For every digest (32 hexadecimal characters, which is
  what \<^verbatim>\<open>hexdigest()\<close> returns whatever the byte counts are) the two parameters are
  computed without an error; the phase offset lies in the closed interval from \<open>0\<close> to
  the program's full turn \<^verbatim>\<open>math.pi * 2\<close>, and it is the full turn exactly when the first
  four digits are \<^verbatim>\<open>ffff\<close>; the frequency multiplier lies between \<open>0.8\<close> and \<open>1.4\<close>.
\<close>

theorem dna_parameter_ranges:
  assumes "is_hexdigest data_hash"
  shows "\<exists>p f. dna_parameters data_hash = Some (Inr (Fin p, Fin f)) \<and>
           0 \<le> p \<and> p \<le> full_turn \<and> (p = full_turn \<longleftrightarrow> take 4 data_hash = ''ffff'') \<and>
           8 / 10 \<le> f \<and> f \<le> 14 / 10"
proof -
  from hexdigest_pieces[OF assms] obtain h1 h2 where
    H: "int_hex (take 4 data_hash) = Some h1" "int_hex (take 4 (drop 4 data_hash)) = Some h2"
       "0 \<le> h1" "h1 \<le> 65535" "0 \<le> h2" "h2 \<le> 65535"
       "h1 = 65535 \<longleftrightarrow> take 4 data_hash = ''ffff''"
    by blast
  from phase_offset_range[OF H(3,4)] obtain p where
    P: "phase_offset h1 = Inr (Fin p)" "0 \<le> p" "p \<le> full_turn" "p = full_turn \<longleftrightarrow> h1 = 65535"
    unfolding full_turn_def by blast
  from freq_mod_range[OF H(5,6)] obtain f where
    F: "freq_mod h2 = Inr (Fin f)" "3602879701896397 / 4503599627370496 \<le> f"
       "f \<le> 3152519739159347 / 2251799813685248"
    by blast
  have "8 / 10 \<le> f" using F(2) by simp
  moreover have "f \<le> 14 / 10" using F(3) by simp
  moreover note dna_parameters_of_pieces[OF H(1,2) P(1) F(1)] P(2,3)
  moreover have "p = full_turn \<longleftrightarrow> take 4 data_hash = ''ffff''" using P(4) H(7) by simp
  ultimately show ?thesis by blast
qed

theorem dna_parameter_ranges_witness:
  "is_hexdigest digest_no_languages \<and>
   (\<exists>p f. dna_parameters digest_no_languages = Some (Inr (Fin p, Fin f)) \<and>
      0 \<le> p \<and> p \<le> full_turn \<and>
      (p = full_turn \<longleftrightarrow> take 4 digest_no_languages = ''ffff'') \<and>
      8 / 10 \<le> f \<and> f \<le> 14 / 10)"
proof -
  have "is_hexdigest digest_no_languages" by code_simp
  with dna_parameter_ranges[of digest_no_languages] show ?thesis by blast
qed

lemma pieces_python_188331:
  "int_hex (take 4 digest_python_188331) = Some 65535"
  "int_hex (take 4 (drop 4 digest_python_188331)) = Some 39587"
  by code_simp+

lemma phase_offset_top: "phase_offset 65535 = Inr (Fin full_turn)"
  using phase_offset_range[of 65535] unfolding full_turn_def by auto

lemma nearest_39587: "nearest (39587 / 65535) = 5440878872319091 / 9007199254740992"
  by code_simp

lemma nearest_39587_06:
  "nearest (5440878872319091 / 9007199254740992 * (5404319552844595 / 9007199254740992))
     = 6529054646782909 / 18014398509481984"
  by code_simp

lemma nearest_39587_08:
  "nearest (3602879701896397 / 4503599627370496 + 6529054646782909 / 18014398509481984)
     = 1308785840898031 / 1125899906842624"
  by code_simp

lemma freq_mod_39587: "freq_mod 39587 = Inr (Fin (1308785840898031 / 1125899906842624))"
proof -
  have t: "truediv 39587 65535 = Inr (Fin (5440878872319091 / 9007199254740992))"
    using truediv_unit[of 39587 65535] unfolding nearest_39587[symmetric] by simp
  have m: "fmul (Fin (5440878872319091 / 9007199254740992)) (float_literal (6 / 10))
             = Fin (6529054646782909 / 18014398509481984)"
    unfolding literal_06 nearest_39587_06[symmetric] by (intro fmul_small) simp_all
  have a: "fadd (float_literal (8 / 10)) (Fin (6529054646782909 / 18014398509481984))
             = Fin (1308785840898031 / 1125899906842624)"
    unfolding literal_08 nearest_39587_08[symmetric] by (intro fadd_small) simp_all
  show ?thesis unfolding freq_mod_def t by (simp only: sum.case m a)
qed

text \<open>
  Against claim C8 as it is written: the digest of the byte counts
  \<^verbatim>\<open>{"Python": 188331}\<close> begins with \<^verbatim>\<open>ffff\<close>, the quotient by \<open>65535\<close> is \<open>1.0\<close>, and the
  phase offset is the program's full turn \<^verbatim>\<open>math.pi * 2\<close> itself, the end the half-open
  interval leaves out.
\<close>

theorem phase_offset_reaches_full_turn:
  "dna_parameters digest_python_188331
     = Some (Inr (Fin full_turn, Fin (1308785840898031 / 1125899906842624))) \<and>
   fmul math_pi (Fin 2) = Fin full_turn"
  using dna_parameters_of_pieces[OF pieces_python_188331 phase_offset_top freq_mod_39587]
    full_turn_is_two_pi by simp

end
